theory Spec2Isabelle
  imports Main "HOL-Library.Multiset"
begin

section \<open>Data model (internal/model/model.go)\<close>

text \<open>
  \<open>SymbolKind\<close> and \<open>HookType\<close> are string types with a fixed set of constants in the
  source; they are modelled as enumerations.  \<open>HookNone\<close> is the zero value (the empty
  string) that every symbol other than a hook carries.
\<close>

datatype SymbolKind =
  KindFunction | KindClass | KindMethod | KindProperty | KindConstant
  | KindInterface | KindTrait | KindEnum | KindHook | KindComponent

datatype HookType = HookNone | HookAction | HookFilter

record Param =
  ParamName :: string
  ParamType :: string
  ParamDescription :: string
  ParamDefault :: string
  IsVariadic :: bool
  IsNullable :: bool
  IsPassByRef :: bool

record ReturnValue =
  ReturnType :: string
  ReturnDescription :: string

record DocBlock =
  Summary :: string
  Description :: string
  Tags :: "(string \<times> string list) list"
  Since :: string
  Deprecated :: string
  SeeAlso :: "string list"
  Links :: "string list"
  Access :: string

record SourceLocation =
  File :: string
  StartLine :: int
  EndLine :: int

record Symbol =
  ID :: string
  Name :: string
  Kind :: SymbolKind
  Language :: string
  Namespace :: string
  Doc :: DocBlock
  Params :: "Param list"
  Returns :: "ReturnValue option"
  Extends :: "string list"
  Implements :: "string list"
  Members :: "string list"
  ParentID :: string
  HookType :: HookType
  HookTag :: string
  CallSites :: "string list"
  UsedBy :: "string list"
  Uses :: "string list"
  Overrides :: string
  Location :: SourceLocation

text \<open>The zero value of \<open>Symbol\<close>: what a Go struct literal leaves in the fields it omits.\<close>

definition zero_Symbol :: Symbol where
  "zero_Symbol =
     \<lparr>ID = [], Name = [], Kind = KindFunction, Language = [], Namespace = [],
      Doc = \<lparr>Summary = [], Description = [], Tags = [], Since = [], Deprecated = [],
              SeeAlso = [], Links = [], Access = []\<rparr>,
      Params = [], Returns = None, Extends = [], Implements = [], Members = [],
      ParentID = [], HookType = HookNone, HookTag = [], CallSites = [], UsedBy = [],
      Uses = [], Overrides = [], Location = \<lparr>File = [], StartLine = 0, EndLine = 0\<rparr>\<rparr>"

text \<open>
  The registry holds pointers to symbols, and the same pointer sits in the primary
  index, the kind index and the file index; the resolver writes through these pointers.
  The model therefore has an explicit store: \<open>store\<close> is the heap of symbol records in
  allocation order, an address is an index into it, and the three Go maps hold
  addresses.  A missing key of \<open>byKind\<close> or \<open>byFile\<close> reads as the nil slice.
\<close>

type_synonym addr = nat

record Registry =
  store :: "Symbol list"
  symbols :: "string \<rightharpoonup> addr"
  byKind :: "SymbolKind \<Rightarrow> addr list"
  byFile :: "string \<Rightarrow> addr list"

definition NewRegistry :: Registry where
  "NewRegistry = \<lparr>store = [], symbols = Map.empty, byKind = (\<lambda>_. []), byFile = (\<lambda>_. [])\<rparr>"

text \<open>The expression \<open>&model.Symbol{...}\<close>: a fresh record on the heap and its address.\<close>

definition new_symbol :: "Registry \<Rightarrow> Symbol \<Rightarrow> addr \<times> Registry" where
  "new_symbol r s = (length (store r), r\<lparr>store := store r @ [s]\<rparr>)"

definition deref :: "Registry \<Rightarrow> addr \<Rightarrow> Symbol" where
  "deref r p = store r ! p"

definition Add :: "Registry \<Rightarrow> addr \<Rightarrow> Registry" where
  "Add r s =
     r\<lparr>symbols := (symbols r)(ID (deref r s) \<mapsto> s),
       byKind := (byKind r)(Kind (deref r s) := byKind r (Kind (deref r s)) @ [s]),
       byFile := (byFile r)(File (Location (deref r s)) :=
                    byFile r (File (Location (deref r s))) @ [s])\<rparr>"

text \<open>
  Every caller of \<open>Add\<close> passes a record it has just allocated
  (\<open>reg.Add(sym)\<close> after \<open>sym := &model.Symbol{...}\<close>).
\<close>

definition insert_new :: "Registry \<Rightarrow> Symbol \<Rightarrow> addr \<times> Registry" where
  "insert_new r s = (let (p, r') = new_symbol r s in (p, Add r' p))"

definition dup_first :: Symbol where
  "dup_first = zero_Symbol\<lparr>ID := ''f'', Language := ''php''\<rparr>"

definition dup_second :: Symbol where
  "dup_second = zero_Symbol\<lparr>ID := ''f'', Language := ''js''\<rparr>"

definition dup_registry1 :: Registry where
  "dup_registry1 = snd (insert_new NewRegistry dup_first)"

definition dup_registry2 :: Registry where
  "dup_registry2 = snd (insert_new dup_registry1 dup_second)"

definition Get :: "Registry \<Rightarrow> string \<Rightarrow> addr option" where
  "Get r k = symbols r k"

definition ByKind :: "Registry \<Rightarrow> SymbolKind \<Rightarrow> addr list" where
  "ByKind r k = byKind r k"

definition ByFile :: "Registry \<Rightarrow> string \<Rightarrow> addr list" where
  "ByFile r path = byFile r path"

text \<open>
  \<open>All\<close> ranges over a Go map, whose iteration order is not fixed.  The order in which
  the keys come out is a parameter \<open>ord\<close> of the model; \<open>enumerates\<close> says that \<open>ord\<close> is
  an enumeration of the keys of the primary index, each once.
\<close>

definition AllSymbols :: "Registry \<Rightarrow> string list \<Rightarrow> addr list" where
  "AllSymbols r ord = List.map_filter (symbols r) ord"

definition enumerates :: "Registry \<Rightarrow> string list \<Rightarrow> bool" where
  "enumerates r ord \<longleftrightarrow> distinct ord \<and> set ord = dom (symbols r)"

definition Count :: "Registry \<Rightarrow> nat" where
  "Count r = card (dom (symbols r))"

section \<open>String helpers (Go's \<open>strings\<close> package, on byte strings)\<close>

text \<open>
  A Go string is a byte sequence; \<open>string\<close> is a list of 8-bit characters.

  \<open>strings.LastIndexAny(s, chars)\<close>: the index of the last byte of \<open>s\<close> that is one of
  \<open>chars\<close>, or -1.  The resolver calls it with ASCII \<open>chars\<close> only, for which the
  rune-wise search of Go is the byte-wise one.
\<close>

fun LastIndexAny :: "string \<Rightarrow> string \<Rightarrow> int" where
  "LastIndexAny [] chars = -1"
| "LastIndexAny (c # s) chars =
     (let i = LastIndexAny s chars
      in if i \<ge> 0 then i + 1 else if c \<in> set chars then 0 else -1)"

text \<open>\<open>strings.ReplaceAll(s, old, new)\<close> for one-byte \<open>old\<close> and \<open>new\<close>.\<close>

definition ReplaceAll :: "string \<Rightarrow> char \<Rightarrow> char \<Rightarrow> string" where
  "ReplaceAll s old new = map (\<lambda>c. if c = old then new else c) s"

definition TrimSuffix :: "string \<Rightarrow> string \<Rightarrow> string" where
  "TrimSuffix s suffix =
     (if length suffix \<le> length s \<and> drop (length s - length suffix) s = suffix
      then take (length s - length suffix) s else s)"

text \<open>
  \<open>strings.TrimSpace\<close> removes leading and trailing runes for which \<open>unicode.IsSpace\<close>
  holds.  \<open>spaceRunes\<close> lists the UTF-8 encodings of these code points: tab, line feed,
  vertical tab, form feed, carriage return, space, U+0085, U+00A0, U+1680,
  U+2000 to U+200A, U+2028, U+2029, U+202F, U+205F and U+3000.  A rune is removed at
  the front when its encoding is a prefix of the string, and at the back when its
  encoding is a suffix; bytes that do not decode are no space and stop the trimming.
\<close>

definition spaceRunes :: "string list" where
  "spaceRunes =
     [[CHR 0x09], [CHR 0x0A], [CHR 0x0B], [CHR 0x0C], [CHR 0x0D], [CHR 0x20],
      [CHR 0xC2, CHR 0x85], [CHR 0xC2, CHR 0xA0], [CHR 0xE1, CHR 0x9A, CHR 0x80],
      [CHR 0xE2, CHR 0x80, CHR 0x80], [CHR 0xE2, CHR 0x80, CHR 0x81],
      [CHR 0xE2, CHR 0x80, CHR 0x82], [CHR 0xE2, CHR 0x80, CHR 0x83],
      [CHR 0xE2, CHR 0x80, CHR 0x84], [CHR 0xE2, CHR 0x80, CHR 0x85],
      [CHR 0xE2, CHR 0x80, CHR 0x86], [CHR 0xE2, CHR 0x80, CHR 0x87],
      [CHR 0xE2, CHR 0x80, CHR 0x88], [CHR 0xE2, CHR 0x80, CHR 0x89],
      [CHR 0xE2, CHR 0x80, CHR 0x8A], [CHR 0xE2, CHR 0x80, CHR 0xA8],
      [CHR 0xE2, CHR 0x80, CHR 0xA9], [CHR 0xE2, CHR 0x80, CHR 0xAF],
      [CHR 0xE2, CHR 0x81, CHR 0x9F], [CHR 0xE3, CHR 0x80, CHR 0x80]]"

definition leadingRuneLen :: "string list \<Rightarrow> string \<Rightarrow> nat" where
  "leadingRuneLen runes s =
     (case find (\<lambda>w. take (length w) s = w) runes of None \<Rightarrow> 0 | Some w \<Rightarrow> length w)"

fun trimLeftRunes :: "string list \<Rightarrow> string \<Rightarrow> string" where
  "trimLeftRunes runes [] = []"
| "trimLeftRunes runes (c # s) =
     (if leadingRuneLen runes (c # s) = 0 then c # s
      else trimLeftRunes runes (drop (leadingRuneLen runes (c # s) - 1) s))"

definition TrimSpace :: "string \<Rightarrow> string" where
  "TrimSpace s = rev (trimLeftRunes (map rev spaceRunes) (rev (trimLeftRunes spaceRunes s)))"

section \<open>The resolver (internal/resolver/resolver.go)\<close>

record Stats =
  Resolved :: int
  Unresolved :: int
  Inheritance :: int
  HookBindings :: int

record Resolver =
  registry :: Registry
  stats :: Stats

definition New :: "Registry \<Rightarrow> Resolver" where
  "New reg = \<lparr>registry = reg,
              stats = \<lparr>Resolved = 0, Unresolved = 0, Inheritance = 0, HookBindings = 0\<rparr>\<rparr>"

text \<open>A write through a symbol pointer: \<open>p.field = v\<close> is \<open>modify r p (\<lambda>s. s\<lparr>field := v\<rparr>)\<close>.\<close>

definition modify :: "Registry \<Rightarrow> addr \<Rightarrow> (Symbol \<Rightarrow> Symbol) \<Rightarrow> Registry" where
  "modify r p f = r\<lparr>store := (store r)[p := f (store r ! p)]\<rparr>"

definition appendUnique :: "string list \<Rightarrow> string \<Rightarrow> string list" where
  "appendUnique slice val = (if val \<in> set slice then slice else slice @ [val])"

text \<open>
  \<open>findSymbol\<close>: direct lookup, lookup with \<open>/\<close> replaced by the backslash, then the
  scan of all symbols for the short name.  \<open>ord\<close> is the order in which \<open>All\<close> hands
  out the symbols for the scan.  The result is the pointer found, \<open>None\<close> for nil.
\<close>

definition findSymbol :: "Registry \<Rightarrow> string list \<Rightarrow> string \<Rightarrow> addr option" where
  "findSymbol r ord name =
     (case Get r name of Some s \<Rightarrow> Some s
      | None \<Rightarrow>
     (case Get r (ReplaceAll name (CHR ''/'') (CHR 0x5C)) of Some s \<Rightarrow> Some s
      | None \<Rightarrow>
        (let idx = LastIndexAny name [CHR 0x5C, CHR ''/'', CHR '':''];
             shortName = (if idx \<ge> 0 then drop (nat (idx + 1)) name else name);
             candidates = filter (\<lambda>sym. Name (deref r sym) = shortName) (AllSymbols r ord)
         in if length candidates = 1 then Some (candidates ! 0) else None)))"

text \<open>
  Pass 1, \<open>resolveInheritance\<close>.  \<open>resolveExtends\<close> and \<open>resolveImplements\<close> are the two
  inner loops over index and entry; \<open>inheritanceStep\<close> is the body of the outer loop.
  \<open>ord\<close> is the order of the outer \<open>All\<close>, \<open>fo\<close> the order of the scans in \<open>findSymbol\<close>.
\<close>

fun resolveExtends :: "string list \<Rightarrow> addr \<Rightarrow> nat \<Rightarrow> string list \<Rightarrow> Resolver \<Rightarrow> Resolver" where
  "resolveExtends fo symbol i [] r = r"
| "resolveExtends fo symbol i (ext # rest) r =
     resolveExtends fo symbol (Suc i) rest
       (case findSymbol (registry r) fo ext of
          None \<Rightarrow> r
        | Some resolved \<Rightarrow>
            r\<lparr>registry := modify (registry r) symbol
                 (\<lambda>s. s\<lparr>Extends := (Extends s)[i := ID (deref (registry r) resolved)]\<rparr>),
              stats := (stats r)\<lparr>Inheritance := Inheritance (stats r) + 1,
                                 Resolved := Resolved (stats r) + 1\<rparr>\<rparr>)"

fun resolveImplements :: "string list \<Rightarrow> addr \<Rightarrow> nat \<Rightarrow> string list \<Rightarrow> Resolver \<Rightarrow> Resolver" where
  "resolveImplements fo symbol i [] r = r"
| "resolveImplements fo symbol i (impl # rest) r =
     resolveImplements fo symbol (Suc i) rest
       (case findSymbol (registry r) fo impl of
          None \<Rightarrow> r
        | Some resolved \<Rightarrow>
            r\<lparr>registry := modify (registry r) symbol
                 (\<lambda>s. s\<lparr>Implements := (Implements s)[i := ID (deref (registry r) resolved)]\<rparr>),
              stats := (stats r)\<lparr>Inheritance := Inheritance (stats r) + 1,
                                 Resolved := Resolved (stats r) + 1\<rparr>\<rparr>)"

definition inheritanceStep :: "string list \<Rightarrow> addr \<Rightarrow> Resolver \<Rightarrow> Resolver" where
  "inheritanceStep fo symbol r =
     (if Kind (deref (registry r) symbol) \<noteq> KindClass \<and>
         Kind (deref (registry r) symbol) \<noteq> KindInterface then r
      else let r1 = resolveExtends fo symbol 0 (Extends (deref (registry r) symbol)) r
           in resolveImplements fo symbol 0 (Implements (deref (registry r1) symbol)) r1)"

definition resolveInheritance :: "string list \<Rightarrow> string list \<Rightarrow> Resolver \<Rightarrow> Resolver" where
  "resolveInheritance ord fo r = fold (inheritanceStep fo) (AllSymbols (registry r) ord) r"

text \<open>
  Pass 2, \<open>resolveHookBindings\<close>.  \<open>hooksByTag\<close> is the temporary index built from
  \<open>ByKind(KindHook)\<close>, a later hook with the same tag replacing an earlier one;
  \<open>bindUses\<close> is the loop over \<open>sym.Uses\<close>.
\<close>

definition hooksByTag :: "Registry \<Rightarrow> (string \<rightharpoonup> addr)" where
  "hooksByTag r = fold (\<lambda>h m. m(HookTag (deref r h) \<mapsto> h)) (ByKind r KindHook) Map.empty"

fun bindUses :: "(string \<rightharpoonup> addr) \<Rightarrow> addr \<Rightarrow> string list \<Rightarrow> Resolver \<Rightarrow> Resolver" where
  "bindUses hbt symbol [] r = r"
| "bindUses hbt symbol (hookID # rest) r =
     bindUses hbt symbol rest
       (case hbt hookID of
          None \<Rightarrow> r
        | Some hook \<Rightarrow>
            r\<lparr>registry := modify (registry r) hook
                 (\<lambda>h. h\<lparr>UsedBy := appendUnique (UsedBy h) (ID (deref (registry r) symbol))\<rparr>),
              stats := (stats r)\<lparr>HookBindings := HookBindings (stats r) + 1,
                                 Resolved := Resolved (stats r) + 1\<rparr>\<rparr>)"

definition hookStep :: "(string \<rightharpoonup> addr) \<Rightarrow> addr \<Rightarrow> Resolver \<Rightarrow> Resolver" where
  "hookStep hbt symbol r =
     (if Kind (deref (registry r) symbol) \<noteq> KindFunction \<and>
         Kind (deref (registry r) symbol) \<noteq> KindMethod then r
      else bindUses hbt symbol (Uses (deref (registry r) symbol)) r)"

definition resolveHookBindings :: "string list \<Rightarrow> Resolver \<Rightarrow> Resolver" where
  "resolveHookBindings ord r =
     fold (hookStep (hooksByTag (registry r))) (AllSymbols (registry r) ord) r"

text \<open>Pass 3, \<open>resolveSeeReferences\<close>; \<open>resolveSee\<close> is the loop over \<open>sym.Doc.SeeAlso\<close>.\<close>

fun resolveSee :: "string list \<Rightarrow> addr \<Rightarrow> nat \<Rightarrow> string list \<Rightarrow> Resolver \<Rightarrow> Resolver" where
  "resolveSee fo symbol i [] r = r"
| "resolveSee fo symbol i (ref # rest) r =
     resolveSee fo symbol (Suc i) rest
       (if TrimSpace ref = [] then r
        else case findSymbol (registry r) fo (TrimSuffix (TrimSpace ref) ''()'') of
          Some resolved \<Rightarrow>
            r\<lparr>registry := modify (registry r) symbol
                 (\<lambda>s. s\<lparr>Doc := (Doc s)\<lparr>SeeAlso :=
                           (SeeAlso (Doc s))[i := ID (deref (registry r) resolved)]\<rparr>\<rparr>),
              stats := (stats r)\<lparr>Resolved := Resolved (stats r) + 1\<rparr>\<rparr>
        | None \<Rightarrow> r\<lparr>stats := (stats r)\<lparr>Unresolved := Unresolved (stats r) + 1\<rparr>\<rparr>)"

definition seeStep :: "string list \<Rightarrow> addr \<Rightarrow> Resolver \<Rightarrow> Resolver" where
  "seeStep fo symbol r = resolveSee fo symbol 0 (SeeAlso (Doc (deref (registry r) symbol))) r"

definition resolveSeeReferences :: "string list \<Rightarrow> string list \<Rightarrow> Resolver \<Rightarrow> Resolver" where
  "resolveSeeReferences ord fo r = fold (seeStep fo) (AllSymbols (registry r) ord) r"

text \<open>
  Pass 4, \<open>resolveMethodOverrides\<close>.  \<open>overrideSearch\<close> is the loop over
  \<open>parent.Extends\<close>, which ends at the first parent method found (\<open>break\<close>).
\<close>

fun overrideSearch :: "addr \<Rightarrow> string list \<Rightarrow> Resolver \<Rightarrow> Resolver" where
  "overrideSearch symbol [] r = r"
| "overrideSearch symbol (extID # rest) r =
     (case Get (registry r) extID of
        None \<Rightarrow> overrideSearch symbol rest r
      | Some extSym \<Rightarrow>
         (case Get (registry r) (extID @ ''::'' @ Name (deref (registry r) symbol)) of
            None \<Rightarrow> overrideSearch symbol rest r
          | Some parentMethod \<Rightarrow>
             (let reg1 = modify (registry r) symbol
                           (\<lambda>s. s\<lparr>Overrides := ID (deref (registry r) parentMethod)\<rparr>);
                  reg2 = modify reg1 parentMethod
                           (\<lambda>s. s\<lparr>UsedBy := appendUnique (UsedBy s) (ID (deref reg1 symbol))\<rparr>)
              in r\<lparr>registry := reg2,
                   stats := (stats r)\<lparr>Resolved := Resolved (stats r) + 1\<rparr>\<rparr>)))"

definition overrideStep :: "addr \<Rightarrow> Resolver \<Rightarrow> Resolver" where
  "overrideStep symbol r =
     (if Kind (deref (registry r) symbol) \<noteq> KindMethod \<or> ParentID (deref (registry r) symbol) = []
      then r
      else case Get (registry r) (ParentID (deref (registry r) symbol)) of
             None \<Rightarrow> r
           | Some parent \<Rightarrow> overrideSearch symbol (Extends (deref (registry r) parent)) r)"

definition resolveMethodOverrides :: "string list \<Rightarrow> Resolver \<Rightarrow> Resolver" where
  "resolveMethodOverrides ord r = fold overrideStep (AllSymbols (registry r) ord) r"

text \<open>
  \<open>ResolveAll\<close> runs the four passes in order.  A \<open>Schedule\<close> fixes the enumeration
  orders that the Go maps produce during one run: one for the loop of each pass and
  one for the scans inside \<open>findSymbol\<close>.
\<close>

record Schedule =
  enumInheritance :: "string list"
  enumHooks :: "string list"
  enumSee :: "string list"
  enumOverrides :: "string list"
  enumFind :: "string list"

definition ResolveAll :: "Schedule \<Rightarrow> Resolver \<Rightarrow> Resolver" where
  "ResolveAll sch r =
     resolveMethodOverrides (enumOverrides sch)
       (resolveSeeReferences (enumSee sch) (enumFind sch)
          (resolveHookBindings (enumHooks sch)
             (resolveInheritance (enumInheritance sch) (enumFind sch) r)))"

definition schedule_ok :: "Registry \<Rightarrow> Schedule \<Rightarrow> bool" where
  "schedule_ok reg sch \<longleftrightarrow>
     enumerates reg (enumInheritance sch) \<and> enumerates reg (enumHooks sch) \<and>
     enumerates reg (enumSee sch) \<and> enumerates reg (enumOverrides sch) \<and>
     enumerates reg (enumFind sch)"

text \<open>
  Well-formed registries: every indexed pointer is allocated, and a symbol is filed
  under its own ID (\<open>Add\<close> files it there and nothing ever writes an ID).
\<close>

definition wf_registry :: "Registry \<Rightarrow> bool" where
  "wf_registry r \<longleftrightarrow>
     (\<forall>k p. symbols r k = Some p \<longrightarrow> p < length (store r) \<and> ID (store r ! p) = k) \<and>
     (\<forall>k. \<forall>p \<in> set (byKind r k). p < length (store r))"

text \<open>
  The spec's words for the third step of the lookup: the short name is the substring
  after the last namespace or path separator, and the candidates are the symbols of
  the registry whose \<open>Name\<close> is that short name.
\<close>

definition separators :: "char set" where
  "separators = {CHR 0x5C, CHR ''/'', CHR '':''}"

definition short_name :: "string \<Rightarrow> string" where
  "short_name name = rev (takeWhile (\<lambda>c. c \<notin> separators) (rev name))"

definition short_candidates :: "Registry \<Rightarrow> string \<Rightarrow> addr set" where
  "short_candidates r name =
     {p. \<exists>k. symbols r k = Some p \<and> Name (deref r p) = short_name name}"

definition rewrite_ref :: "Registry \<Rightarrow> string list \<Rightarrow> string \<Rightarrow> string" where
  "rewrite_ref reg fo e = (case findSymbol reg fo e of None \<Rightarrow> e | Some q \<Rightarrow> ID (deref reg q))"

definition count_found :: "Registry \<Rightarrow> string list \<Rightarrow> string list \<Rightarrow> int" where
  "count_found reg fo es = int (length (filter (\<lambda>e. findSymbol reg fo e \<noteq> None) es))"

definition frame :: "Registry \<Rightarrow> Registry \<Rightarrow> bool" where
  "frame reg reg' \<longleftrightarrow>
     symbols reg' = symbols reg \<and> byKind reg' = byKind reg \<and> byFile reg' = byFile reg \<and>
     length (store reg') = length (store reg) \<and>
     (\<forall>q. ID (deref reg' q) = ID (deref reg q) \<and> Name (deref reg' q) = Name (deref reg q) \<and>
          Kind (deref reg' q) = Kind (deref reg q) \<and>
          ParentID (deref reg' q) = ParentID (deref reg q) \<and>
          Uses (deref reg' q) = Uses (deref reg q) \<and>
          HookTag (deref reg' q) = HookTag (deref reg q))"

definition keeps_identity :: "(Symbol \<Rightarrow> Symbol) \<Rightarrow> bool" where
  "keeps_identity f \<longleftrightarrow>
     (\<forall>s. ID (f s) = ID s \<and> Name (f s) = Name s \<and> Kind (f s) = Kind s \<and>
          ParentID (f s) = ParentID s \<and> Uses (f s) = Uses s \<and> HookTag (f s) = HookTag s)"

definition stats_zero :: Stats where
  "stats_zero = \<lparr>Resolved = 0, Unresolved = 0, Inheritance = 0, HookBindings = 0\<rparr>"

definition stats_add :: "Stats \<Rightarrow> Stats \<Rightarrow> Stats" where
  "stats_add a b = \<lparr>Resolved = Resolved a + Resolved b, Unresolved = Unresolved a + Unresolved b,
                     Inheritance = Inheritance a + Inheritance b,
                     HookBindings = HookBindings a + HookBindings b\<rparr>"

fun stats_sum :: "Stats list \<Rightarrow> Stats" where
  "stats_sum [] = stats_zero"
| "stats_sum (d # ds) = stats_add d (stats_sum ds)"

definition is_classlike :: "Symbol \<Rightarrow> bool" where
  "is_classlike s \<longleftrightarrow> Kind s = KindClass \<or> Kind s = KindInterface"

definition inh_rewrite :: "Registry \<Rightarrow> string list \<Rightarrow> Symbol \<Rightarrow> Symbol" where
  "inh_rewrite reg fo s =
     (if is_classlike s
      then s\<lparr>Extends := map (rewrite_ref reg fo) (Extends s),
             Implements := map (rewrite_ref reg fo) (Implements s)\<rparr>
      else s)"

definition inh_stats :: "Registry \<Rightarrow> string list \<Rightarrow> Symbol \<Rightarrow> Stats" where
  "inh_stats reg fo s =
     (if is_classlike s
      then \<lparr>Resolved = count_found reg fo (Extends s) + count_found reg fo (Implements s),
            Unresolved = 0,
            Inheritance = count_found reg fo (Extends s) + count_found reg fo (Implements s),
            HookBindings = 0\<rparr>
      else stats_zero)"

definition see_ref :: "Registry \<Rightarrow> string list \<Rightarrow> string \<Rightarrow> string" where
  "see_ref reg fo ref =
     (if TrimSpace ref = [] then ref
      else case findSymbol reg fo (TrimSuffix (TrimSpace ref) ''()'') of
             None \<Rightarrow> ref | Some q \<Rightarrow> ID (deref reg q))"

definition see_found :: "Registry \<Rightarrow> string list \<Rightarrow> string \<Rightarrow> bool" where
  "see_found reg fo ref \<longleftrightarrow>
     TrimSpace ref \<noteq> [] \<and> findSymbol reg fo (TrimSuffix (TrimSpace ref) ''()'') \<noteq> None"

definition see_missed :: "Registry \<Rightarrow> string list \<Rightarrow> string \<Rightarrow> bool" where
  "see_missed reg fo ref \<longleftrightarrow>
     TrimSpace ref \<noteq> [] \<and> findSymbol reg fo (TrimSuffix (TrimSpace ref) ''()'') = None"

definition see_rewrite :: "Registry \<Rightarrow> string list \<Rightarrow> Symbol \<Rightarrow> Symbol" where
  "see_rewrite reg fo s = s\<lparr>Doc := (Doc s)\<lparr>SeeAlso := map (see_ref reg fo) (SeeAlso (Doc s))\<rparr>\<rparr>"

definition see_stats :: "Registry \<Rightarrow> string list \<Rightarrow> Symbol \<Rightarrow> Stats" where
  "see_stats reg fo s =
     \<lparr>Resolved = int (length (filter (see_found reg fo) (SeeAlso (Doc s)))),
      Unresolved = int (length (filter (see_missed reg fo) (SeeAlso (Doc s)))),
      Inheritance = 0, HookBindings = 0\<rparr>"

definition blank_see_registry :: Registry where
  "blank_see_registry =
     snd (insert_new NewRegistry
            (zero_Symbol\<lparr>ID := ''f'', Name := ''f'', Doc := (Doc zero_Symbol)\<lparr>SeeAlso := [[]]\<rparr>\<rparr>))"

definition base_id :: string where
  "base_id = [CHR ''A'', CHR ''p'', CHR ''p'', CHR 0x5C, CHR ''B'', CHR ''a'', CHR ''s'', CHR ''e'']"

definition base_save_id :: string where
  "base_save_id = [CHR ''A'', CHR ''p'', CHR ''p'', CHR 0x5C, CHR ''B'', CHR ''a'', CHR ''s'', CHR ''e'',
                   CHR '':'', CHR '':'', CHR ''s'', CHR ''a'', CHR ''v'', CHR ''e'']"

definition scenario_symbols :: "Symbol list" where
  "scenario_symbols =
       [zero_Symbol\<lparr>ID := base_id, Name := ''Base'', Kind := KindClass\<rparr>,
        zero_Symbol\<lparr>ID := base_save_id, Name := ''save'', Kind := KindMethod,
                     ParentID := base_id\<rparr>,
        zero_Symbol\<lparr>ID := ''Foo'', Name := ''Foo'', Kind := KindClass, Extends := [''Base''],
                     Implements := [''Bar'']\<rparr>,
        zero_Symbol\<lparr>ID := ''Foo::save'', Name := ''save'', Kind := KindMethod,
                     ParentID := ''Foo'',
                     Doc := (Doc zero_Symbol)\<lparr>SeeAlso :=
                              [''some_function()'', ''save'', [], ''App/Base'']\<rparr>\<rparr>,
        zero_Symbol\<lparr>ID := ''some_function'', Name := ''some_function''\<rparr>]"

definition scenario_registry :: Registry where
  "scenario_registry = fold (\<lambda>s r. snd (insert_new r s)) scenario_symbols NewRegistry"

definition scenario_order :: "string list" where
  "scenario_order = [''some_function'', ''Foo::save'', ''Foo'', base_save_id, base_id]"

definition append_all :: "string list \<Rightarrow> string list \<Rightarrow> string list" where
  "append_all xs vs = fold (\<lambda>v acc. appendUnique acc v) vs xs"

definition xref_ext ::
  "Registry \<Rightarrow> (addr \<Rightarrow> string option) \<Rightarrow> (addr \<Rightarrow> string list) \<Rightarrow> Registry \<Rightarrow> bool" where
  "xref_ext reg ov c reg' \<longleftrightarrow>
     symbols reg' = symbols reg \<and> byKind reg' = byKind reg \<and> byFile reg' = byFile reg \<and>
     length (store reg') = length (store reg) \<and>
     (\<forall>q. deref reg' q =
            (deref reg q)\<lparr>Overrides := (case ov q of None \<Rightarrow> Overrides (deref reg q) | Some v \<Rightarrow> v),
                           UsedBy := append_all (UsedBy (deref reg q)) (c q)\<rparr>)"

definition is_callable :: "Symbol \<Rightarrow> bool" where
  "is_callable s \<longleftrightarrow> Kind s = KindFunction \<or> Kind s = KindMethod"

definition hook_contrib :: "(string \<rightharpoonup> addr) \<Rightarrow> Symbol \<Rightarrow> addr \<Rightarrow> string list" where
  "hook_contrib hbt s q =
     (if is_callable s then map (\<lambda>_. ID s) (filter (\<lambda>t. hbt t = Some q) (Uses s)) else [])"

definition hook_count :: "(string \<rightharpoonup> addr) \<Rightarrow> string list \<Rightarrow> Stats" where
  "hook_count hbt uses =
     \<lparr>Resolved = int (length (filter (\<lambda>t. hbt t \<noteq> None) uses)), Unresolved = 0,
      Inheritance = 0, HookBindings = int (length (filter (\<lambda>t. hbt t \<noteq> None) uses))\<rparr>"

definition hook_stats :: "(string \<rightharpoonup> addr) \<Rightarrow> Symbol \<Rightarrow> Stats" where
  "hook_stats hbt s = (if is_callable s then hook_count hbt (Uses s) else stats_zero)"

fun find_parent_method :: "Registry \<Rightarrow> string \<Rightarrow> string list \<Rightarrow> addr option" where
  "find_parent_method reg name [] = None"
| "find_parent_method reg name (extID # rest) =
     (case Get reg extID of
        None \<Rightarrow> find_parent_method reg name rest
      | Some extSym \<Rightarrow>
         (case Get reg (extID @ ''::'' @ name) of
            None \<Rightarrow> find_parent_method reg name rest
          | Some parentMethod \<Rightarrow> Some parentMethod))"

definition override_target :: "Registry \<Rightarrow> addr \<Rightarrow> addr option" where
  "override_target reg p =
     (if Kind (deref reg p) \<noteq> KindMethod \<or> ParentID (deref reg p) = [] then None
      else case Get reg (ParentID (deref reg p)) of
             None \<Rightarrow> None
           | Some parent \<Rightarrow> find_parent_method reg (Name (deref reg p)) (Extends (deref reg parent)))"

definition ovr_write :: "Registry \<Rightarrow> addr \<Rightarrow> addr \<Rightarrow> string option" where
  "ovr_write reg p q =
     (if q = p then map_option (\<lambda>m. ID (deref reg m)) (override_target reg p) else None)"

definition ovr_contrib :: "Registry \<Rightarrow> addr \<Rightarrow> addr \<Rightarrow> string list" where
  "ovr_contrib reg p q = (if override_target reg p = Some q then [ID (deref reg p)] else [])"

definition ovr_stats :: "Registry \<Rightarrow> addr \<Rightarrow> Stats" where
  "ovr_stats reg p =
     (if override_target reg p = None then stats_zero
      else \<lparr>Resolved = 1, Unresolved = 0, Inheritance = 0, HookBindings = 0\<rparr>)"




definition override_symbols :: "Symbol list" where
  "override_symbols =
     [zero_Symbol\<lparr>ID := ''Base'', Name := ''Base'', Kind := KindClass\<rparr>,
      zero_Symbol\<lparr>ID := ''Base::save'', Name := ''save'', Kind := KindMethod,
                   ParentID := ''Base''\<rparr>,
      zero_Symbol\<lparr>ID := ''Mid'', Name := ''Mid'', Kind := KindClass\<rparr>,
      zero_Symbol\<lparr>ID := ''Child'', Name := ''Child'', Kind := KindClass,
                   Extends := [''Ghost'', ''Mid'', ''Base'']\<rparr>,
      zero_Symbol\<lparr>ID := ''Child::save'', Name := ''save'', Kind := KindMethod,
                   ParentID := ''Child''\<rparr>,
      zero_Symbol\<lparr>ID := ''Orphan::save'', Name := ''save'', Kind := KindMethod,
                   ParentID := ''Orphan''\<rparr>,
      zero_Symbol\<lparr>ID := ''Kid'', Name := ''Kid'', Kind := KindClass, Extends := [''Base'']\<rparr>,
      zero_Symbol\<lparr>ID := ''Kid::save'', Name := ''save'', Kind := KindMethod,
                   ParentID := ''Kid''\<rparr>]"

definition override_registry :: Registry where
  "override_registry = fold (\<lambda>s r. snd (insert_new r s)) override_symbols NewRegistry"

definition override_order :: "string list" where
  "override_order = [''Base'', ''Base::save'', ''Mid'', ''Child'', ''Child::save'',
                     ''Orphan::save'', ''Kid'', ''Kid::save'']"

definition core :: "Symbol \<Rightarrow> Symbol" where
  "core s = s\<lparr>Extends := [], Implements := [], Doc := (Doc s)\<lparr>SeeAlso := []\<rparr>,
              UsedBy := [], Overrides := []\<rparr>"

definition symbol_monotone :: "Symbol \<Rightarrow> Symbol \<Rightarrow> bool" where
  "symbol_monotone a b \<longleftrightarrow>
     core b = core a \<and>
     length (Extends b) = length (Extends a) \<and>
     length (Implements b) = length (Implements a) \<and>
     length (SeeAlso (Doc b)) = length (SeeAlso (Doc a)) \<and>
     (\<exists>ys. UsedBy b = UsedBy a @ ys) \<and>
     (Overrides a \<noteq> [] \<longrightarrow> Overrides b \<noteq> [])"

definition resolution_monotone :: "Registry \<Rightarrow> Registry \<Rightarrow> bool" where
  "resolution_monotone reg reg' \<longleftrightarrow>
     symbols reg' = symbols reg \<and> byKind reg' = byKind reg \<and> byFile reg' = byFile reg \<and>
     Count reg' = Count reg \<and> length (store reg') = length (store reg) \<and>
     (\<forall>p. ID (deref reg' p) = ID (deref reg p) \<and>
          symbol_monotone (deref reg p) (deref reg' p))"

definition override_schedule :: Schedule where
  "override_schedule =
     \<lparr>enumInheritance = override_order, enumHooks = override_order, enumSee = override_order,
      enumOverrides = override_order, enumFind = override_order\<rparr>"

definition override_schedule_rev :: Schedule where
  "override_schedule_rev =
     \<lparr>enumInheritance = rev override_order, enumHooks = rev override_order,
      enumSee = rev override_order, enumOverrides = rev override_order,
      enumFind = rev override_order\<rparr>"

section \<open>Registry lemmas\<close>

lemma wf_NewRegistry: "wf_registry NewRegistry"
  by (simp add: wf_registry_def NewRegistry_def)

lemma wf_new_symbol: "wf_registry r \<Longrightarrow> wf_registry (snd (new_symbol r s))"
  by (auto simp: wf_registry_def new_symbol_def nth_append less_Suc_eq)

lemma wf_Add: "wf_registry r \<Longrightarrow> p < length (store r) \<Longrightarrow> wf_registry (Add r p)"
  by (auto simp: wf_registry_def Add_def deref_def)

text \<open>
  C10.  Two distinct symbol records \<open>s1\<close> and \<open>s2\<close> with one ID are added, \<open>s2\<close> after
  \<open>s1\<close>.  \<open>Get\<close> of the ID then returns the second record and \<open>Count\<close> is what it was
  after the first \<open>Add\<close>; the first record is still listed by \<open>ByKind\<close> and \<open>ByFile\<close>
  although no ID leads to it any more.  Starting from the empty registry with two
  records of one kind and one file, \<open>ByKind\<close> and \<open>ByFile\<close> return two entries while
  \<open>Count\<close> is one.
\<close>

theorem Add_same_ID_supersedes:
  assumes wf: "wf_registry r0" and same: "ID s1 = ID s2"
    and i1: "insert_new r0 s1 = (p1, r1)" and i2: "insert_new r1 s2 = (p2, r2)"
  shows "p1 \<noteq> p2 \<and> deref r2 p1 = s1 \<and> deref r2 p2 = s2 \<and>
         Get r2 (ID s1) = Some p2 \<and> Count r2 = Count r1 \<and>
         p1 \<in> set (ByKind r2 (Kind s1)) \<and> p1 \<in> set (ByFile r2 (File (Location s1))) \<and>
         (\<forall>k. Get r2 k \<noteq> Some p1) \<and>
         (r0 = NewRegistry \<longrightarrow> Kind s2 = Kind s1 \<longrightarrow>
            File (Location s2) = File (Location s1) \<longrightarrow>
            Count r2 = 1 \<and> ByKind r2 (Kind s1) = [p1, p2] \<and>
            ByFile r2 (File (Location s1)) = [p1, p2])"
proof -
  have p1: "p1 = length (store r0)" and p2: "p2 = Suc (length (store r0))"
    and st: "store r2 = store r0 @ [s1, s2]"
    and sy: "symbols r2 = (symbols r0)(ID s1 \<mapsto> p2)"
    and sy1: "symbols r1 = (symbols r0)(ID s1 \<mapsto> p1)"
    using i1 i2 same
    by (auto simp: insert_new_def new_symbol_def Add_def deref_def Let_def nth_append)
  have bk: "byKind r2 = (\<lambda>k. byKind r0 k @ (if k = Kind s1 then [p1] else []) @
                               (if k = Kind s2 then [p2] else []))"
    and bf: "byFile r2 = (\<lambda>f. byFile r0 f @ (if f = File (Location s1) then [p1] else []) @
                               (if f = File (Location s2) then [p2] else []))"
    using i1 i2
    by (auto simp: insert_new_def new_symbol_def Add_def deref_def Let_def nth_append fun_eq_iff)
  have unreach: "Get r2 k \<noteq> Some p1" for k
  proof
    assume "Get r2 k = Some p1"
    then have "symbols r0 k = Some p1"
      using p1 p2 by (simp add: Get_def sy split: if_splits)
    with wf have "p1 < length (store r0)" by (simp add: wf_registry_def)
    with p1 show False by simp
  qed
  have "dom (symbols r2) = dom (symbols r1)" by (simp add: sy sy1)
  then have cnt: "Count r2 = Count r1" by (simp add: Count_def)
  show ?thesis
    using unreach cnt
    by (simp add: p1 p2 st sy bk bf deref_def Get_def Count_def ByKind_def ByFile_def
        NewRegistry_def nth_append)
qed

theorem Add_same_ID_supersedes_witness:
  "wf_registry NewRegistry \<and> ID dup_first = ID dup_second \<and>
   insert_new NewRegistry dup_first = (0, dup_registry1) \<and>
   insert_new dup_registry1 dup_second = (1, dup_registry2) \<and>
   Language (deref dup_registry2 0) = ''php'' \<and> Language (deref dup_registry2 1) = ''js'' \<and>
   Get dup_registry2 ''f'' = Some 1 \<and> Count dup_registry2 = 1 \<and> Count dup_registry1 = 1 \<and>
   ByKind dup_registry2 KindFunction = [0, 1] \<and> ByFile dup_registry2 [] = [0, 1] \<and>
   (\<forall>k. Get dup_registry2 k \<noteq> Some 0)"
proof -
  have h1: "wf_registry NewRegistry" by (rule wf_NewRegistry)
  have h2: "ID dup_first = ID dup_second" by (simp add: dup_first_def dup_second_def)
  have i1: "insert_new NewRegistry dup_first = (0, dup_registry1)"
    by (simp add: dup_registry1_def insert_new_def new_symbol_def NewRegistry_def)
  have i2: "insert_new dup_registry1 dup_second = (1, dup_registry2)"
    by (simp add: dup_registry2_def dup_registry1_def insert_new_def new_symbol_def
        NewRegistry_def Add_def)
  have k: "Kind dup_first = KindFunction" "Kind dup_second = KindFunction"
    "File (Location dup_first) = []" "File (Location dup_second) = []" "ID dup_first = ''f''"
    "Language dup_first = ''php''" "Language dup_second = ''js''"
    by (simp_all add: dup_first_def dup_second_def zero_Symbol_def)
  from Add_same_ID_supersedes [OF h1 h2 i1 i2] k
  have "Language (deref dup_registry2 0) = ''php'' \<and> Language (deref dup_registry2 1) = ''js'' \<and>
       Get dup_registry2 ''f'' = Some 1 \<and> Count dup_registry2 = 1 \<and> Count dup_registry1 = 1 \<and>
       ByKind dup_registry2 KindFunction = [0, 1] \<and> ByFile dup_registry2 [] = [0, 1] \<and>
       (\<forall>k. Get dup_registry2 k \<noteq> Some 0)"
    by simp
  with h1 h2 i1 i2 show ?thesis by blast
qed

lemma modify_simps [simp]:
  "symbols (modify r p f) = symbols r"
  "byKind (modify r p f) = byKind r"
  "byFile (modify r p f) = byFile r"
  "length (store (modify r p f)) = length (store r)"
  by (simp_all add: modify_def)

lemma deref_modify:
  "deref (modify r p f) q = (if q = p \<and> p < length (store r) then f (deref r p) else deref r q)"
  by (cases "p < length (store r)") (auto simp: modify_def deref_def nth_list_update list_update_beyond)

lemma Get_modify [simp]: "Get (modify r p f) = Get r"
  by (simp add: Get_def fun_eq_iff)

lemma AllSymbols_modify [simp]: "AllSymbols (modify r p f) = AllSymbols r"
  by (simp add: AllSymbols_def fun_eq_iff)

lemma ByKind_modify [simp]: "ByKind (modify r p f) = ByKind r"
  by (simp add: ByKind_def fun_eq_iff)

lemma LastIndexAny_neg: "LastIndexAny s cs < 0 \<longleftrightarrow> set s \<inter> set cs = {}"
  by (induction s) (auto simp: Let_def)

lemma LastIndexAny_ge: "LastIndexAny s cs \<ge> -1"
  by (induction s) (auto simp: Let_def)

lemma takeWhile_snoc_stop:
  "\<exists>x\<in>set xs. \<not> P x \<Longrightarrow> takeWhile P (xs @ ys) = takeWhile P xs"
  by (induction xs) auto

lemma LastIndexAny_drop:
  "LastIndexAny s cs \<ge> 0 \<Longrightarrow>
     drop (nat (LastIndexAny s cs + 1)) s = rev (takeWhile (\<lambda>c. c \<notin> set cs) (rev s))"
proof (induction s)
  case Nil
  then show ?case by simp
next
  case (Cons c s)
  show ?case
  proof (cases "LastIndexAny s cs \<ge> 0")
    case True
    then have "\<not> LastIndexAny s cs < 0" by simp
    then have "\<exists>x\<in>set (rev s). \<not> x \<notin> set cs"
      unfolding LastIndexAny_neg by auto
    then have "takeWhile (\<lambda>c. c \<notin> set cs) (rev s @ [c]) = takeWhile (\<lambda>c. c \<notin> set cs) (rev s)"
      by (rule takeWhile_snoc_stop)
    moreover have "nat (LastIndexAny s cs + 1 + 1) = Suc (nat (LastIndexAny s cs + 1))"
      using True by simp
    ultimately show ?thesis using True Cons.IH by (simp add: Let_def)
  next
    case False
    then have neg: "LastIndexAny s cs < 0" by simp
    then have none: "\<forall>x\<in>set (rev s). x \<notin> set cs"
      unfolding LastIndexAny_neg by auto
    from Cons.prems False have c: "c \<in> set cs" by (simp add: Let_def split: if_splits)
    have "takeWhile (\<lambda>c. c \<notin> set cs) (rev s @ [c]) = rev s @ takeWhile (\<lambda>c. c \<notin> set cs) [c]"
      by (rule takeWhile_append2) (use none in auto)
    with c have "rev (takeWhile (\<lambda>c. c \<notin> set cs) (rev (c # s))) = s" by simp
    moreover have "LastIndexAny (c # s) cs = 0" using c False by (simp add: Let_def)
    ultimately show ?thesis by simp
  qed
qed

lemma short_name_code:
  "(let idx = LastIndexAny name [CHR 0x5C, CHR ''/'', CHR '':'']
    in if idx \<ge> 0 then drop (nat (idx + 1)) name else name) = short_name name"
proof (cases "LastIndexAny name [CHR 0x5C, CHR ''/'', CHR '':''] \<ge> 0")
  case True
  then show ?thesis
    using LastIndexAny_drop [OF True] by (simp add: short_name_def separators_def Let_def)
next
  case False
  then have "LastIndexAny name [CHR 0x5C, CHR ''/'', CHR '':''] < 0" by simp
  then have "\<forall>x\<in>set (rev name). x \<notin> separators"
    unfolding LastIndexAny_neg separators_def by auto
  then have tw: "takeWhile (\<lambda>c. c \<notin> separators) (rev name) = rev name"
    unfolding takeWhile_eq_all_conv .
  have "short_name name = name" unfolding short_name_def tw by (rule rev_rev_ident)
  with False show ?thesis by (simp add: Let_def)
qed


lemma AllSymbols_set: "enumerates r ord \<Longrightarrow> set (AllSymbols r ord) = ran (symbols r)"
  by (force simp: AllSymbols_def enumerates_def map_filter_def ran_def dom_def image_iff)

lemma wf_symbols_inj: "wf_registry r \<Longrightarrow> symbols r k = Some p \<Longrightarrow> symbols r k' = Some p \<Longrightarrow> k = k'"
  unfolding wf_registry_def by metis

lemma AllSymbols_distinct:
  assumes "wf_registry r" "enumerates r ord"
  shows "distinct (AllSymbols r ord)"
proof -
  have "inj_on (the \<circ> symbols r) (set (filter (\<lambda>k. symbols r k \<noteq> None) ord))"
    using assms(1) by (auto simp: inj_on_def dest: wf_symbols_inj)
  then show ?thesis
    using assms(2) by (simp add: AllSymbols_def map_filter_def enumerates_def distinct_map)
qed

lemma AllSymbols_mset:
  assumes "wf_registry r" "enumerates r ord" "enumerates r ord'"
  shows "mset (AllSymbols r ord) = mset (AllSymbols r ord')"
  using assms by (simp add: set_eq_iff_mset_eq_distinct [symmetric] AllSymbols_distinct AllSymbols_set)

lemma singleton_list_iff:
  "distinct xs \<Longrightarrow> (length xs = 1 \<and> xs ! 0 = p) \<longleftrightarrow> set xs = {p}"
proof
  assume "length xs = 1 \<and> xs ! 0 = p"
  then show "set xs = {p}" by (cases xs) auto
next
  assume d: "distinct xs" and s: "set xs = {p}"
  from d have "length xs = card (set xs)" by (simp add: distinct_card)
  with s have "length xs = 1" by simp
  with s show "length xs = 1 \<and> xs ! 0 = p" by (cases xs) auto
qed

lemma findSymbol_scan:
  assumes "wf_registry r" "enumerates r ord"
    and "Get r name = None" "Get r (ReplaceAll name (CHR ''/'') (CHR 0x5C)) = None"
  shows "findSymbol r ord name = Some p \<longleftrightarrow> short_candidates r name = {p}"
proof -
  let ?c = "filter (\<lambda>s. Name (deref r s) = short_name name) (AllSymbols r ord)"
  have d: "distinct ?c" using assms(1,2) by (simp add: AllSymbols_distinct)
  have s: "set ?c = short_candidates r name"
    using assms(2) by (auto simp: AllSymbols_set short_candidates_def ran_def)
  have "findSymbol r ord name = (if length ?c = 1 then Some (?c ! 0) else None)"
    using assms(3,4) short_name_code [of name] by (simp add: findSymbol_def Let_def)
  then have "findSymbol r ord name = Some p \<longleftrightarrow> length ?c = 1 \<and> ?c ! 0 = p"
    by auto
  also have "\<dots> \<longleftrightarrow> set ?c = {p}" using d by (rule singleton_list_iff)
  finally show ?thesis using s by simp
qed

text \<open>
  C2.  The name lookup returns a symbol exactly when one is found by, in order: the
  exact ID; the ID with every \<open>/\<close> replaced by the backslash; otherwise the scan for
  the short name, which succeeds exactly when one symbol of the registry bears that
  name.  With no candidate or with two different ones the lookup fails.
\<close>

theorem findSymbol_lookup_order:
  assumes "wf_registry r" and "enumerates r ord"
  shows "(\<forall>p. Get r name = Some p \<longrightarrow> findSymbol r ord name = Some p) \<and>
         (\<forall>p. Get r name = None \<and> Get r (ReplaceAll name (CHR ''/'') (CHR 0x5C)) = Some p
               \<longrightarrow> findSymbol r ord name = Some p) \<and>
         (Get r name = None \<and> Get r (ReplaceAll name (CHR ''/'') (CHR 0x5C)) = None \<longrightarrow>
            (\<forall>p. findSymbol r ord name = Some p \<longleftrightarrow> short_candidates r name = {p}) \<and>
            (short_candidates r name = {} \<or>
             (\<exists>p q. p \<in> short_candidates r name \<and> q \<in> short_candidates r name \<and> p \<noteq> q)
               \<longrightarrow> findSymbol r ord name = None))"
proof (intro conjI allI impI)
  fix p assume "Get r name = Some p"
  then show "findSymbol r ord name = Some p" by (simp add: findSymbol_def)
next
  fix p assume "Get r name = None \<and> Get r (ReplaceAll name (CHR ''/'') (CHR 0x5C)) = Some p"
  then show "findSymbol r ord name = Some p" by (simp add: findSymbol_def)
next
  fix p assume "Get r name = None \<and> Get r (ReplaceAll name (CHR ''/'') (CHR 0x5C)) = None"
  then show "findSymbol r ord name = Some p \<longleftrightarrow> short_candidates r name = {p}"
    using findSymbol_scan [OF assms] by simp
next
  assume n: "Get r name = None \<and> Get r (ReplaceAll name (CHR ''/'') (CHR 0x5C)) = None"
    and c: "short_candidates r name = {} \<or>
      (\<exists>p q. p \<in> short_candidates r name \<and> q \<in> short_candidates r name \<and> p \<noteq> q)"
  show "findSymbol r ord name = None"
  proof (rule ccontr)
    assume "findSymbol r ord name \<noteq> None"
    then obtain p where "findSymbol r ord name = Some p" by auto
    with n have "short_candidates r name = {p}" using findSymbol_scan [OF assms] by simp
    with c show False by auto
  qed
qed

lemma frame_refl [simp]: "frame reg reg"
  by (simp add: frame_def)

lemma frame_trans: "frame a b \<Longrightarrow> frame b c \<Longrightarrow> frame a c"
  by (simp add: frame_def)

lemma frame_sym: "frame a b \<Longrightarrow> frame b a"
  by (simp add: frame_def)

lemma frame_modify: "keeps_identity f \<Longrightarrow> frame reg (modify reg p f)"
  by (simp add: frame_def keeps_identity_def deref_modify)

lemma frame_fields:
  assumes "frame reg reg'"
  shows "symbols reg' = symbols reg" "byKind reg' = byKind reg" "byFile reg' = byFile reg"
    "length (store reg') = length (store reg)"
    "ID (deref reg' q) = ID (deref reg q)" "Name (deref reg' q) = Name (deref reg q)"
    "Kind (deref reg' q) = Kind (deref reg q)" "ParentID (deref reg' q) = ParentID (deref reg q)"
    "Uses (deref reg' q) = Uses (deref reg q)" "HookTag (deref reg' q) = HookTag (deref reg q)"
  using assms unfolding frame_def by simp_all

lemma frame_Get: "frame reg reg' \<Longrightarrow> Get reg' = Get reg"
  by (simp add: Get_def fun_eq_iff frame_fields)

lemma frame_AllSymbols: "frame reg reg' \<Longrightarrow> AllSymbols reg' = AllSymbols reg"
  by (simp add: AllSymbols_def fun_eq_iff frame_fields)

lemma frame_ByKind: "frame reg reg' \<Longrightarrow> ByKind reg' = ByKind reg"
  by (simp add: ByKind_def fun_eq_iff frame_fields)

lemma findSymbol_frame:
  assumes "frame reg reg'"
  shows "findSymbol reg' fo = findSymbol reg fo"
  unfolding findSymbol_def frame_Get [OF assms] frame_AllSymbols [OF assms]
    frame_fields(6) [OF assms] ..

lemma rewrite_ref_frame:
  assumes "frame reg reg'"
  shows "rewrite_ref reg' fo = rewrite_ref reg fo"
  by (simp add: rewrite_ref_def fun_eq_iff findSymbol_frame [OF assms] frame_fields(5) [OF assms]
      cong: option.case_cong)

lemma count_found_frame: "frame reg reg' \<Longrightarrow> count_found reg' fo = count_found reg fo"
  by (simp add: count_found_def fun_eq_iff findSymbol_frame)

lemma modify_modify: "modify (modify r p f) p g = modify r p (g \<circ> f)"
  by (cases "p < length (store r)") (simp_all add: modify_def list_update_beyond)

lemma modify_cong: "f (deref r p) = g (deref r p) \<Longrightarrow> modify r p f = modify r p g"
  by (simp add: modify_def deref_def)

lemma modify_id: "f (deref r p) = deref r p \<Longrightarrow> modify r p f = r"
  by (simp add: modify_def deref_def)

lemma resolveExtends_eq:
  assumes "p < length (store (registry r))" "Extends (deref (registry r) p) = pre @ es"
    "length pre = i"
  shows "resolveExtends fo p i es r =
           \<lparr>registry = modify (registry r) p
                         (\<lambda>s. s\<lparr>Extends := pre @ map (rewrite_ref (registry r) fo) es\<rparr>),
            stats = (stats r)\<lparr>Inheritance := Inheritance (stats r) + count_found (registry r) fo es,
                              Resolved := Resolved (stats r) + count_found (registry r) fo es\<rparr>\<rparr>"
  using assms
proof (induction es arbitrary: r pre i)
  case Nil
  then show ?case by (simp add: count_found_def modify_id)
next
  case (Cons e es)
  show ?case
  proof (cases "findSymbol (registry r) fo e")
    case None
    then have rw: "rewrite_ref (registry r) fo e = e" by (simp add: rewrite_ref_def)
    have "resolveExtends fo p (Suc i) es r = 
           \<lparr>registry = modify (registry r) p
                         (\<lambda>s. s\<lparr>Extends := (pre @ [e]) @ map (rewrite_ref (registry r) fo) es\<rparr>),
            stats = (stats r)\<lparr>Inheritance := Inheritance (stats r) + count_found (registry r) fo es,
                              Resolved := Resolved (stats r) + count_found (registry r) fo es\<rparr>\<rparr>"
      by (rule Cons.IH) (use Cons.prems in auto)
    with None rw show ?thesis by (simp add: count_found_def)
  next
    case (Some q)
    let ?v = "ID (deref (registry r) q)"
    let ?f = "\<lambda>s. s\<lparr>Extends := (Extends s)[i := ?v]\<rparr>"
    let ?r1 = "r\<lparr>registry := modify (registry r) p ?f,
                  stats := (stats r)\<lparr>Inheritance := Inheritance (stats r) + 1,
                                     Resolved := Resolved (stats r) + 1\<rparr>\<rparr>"
    have rw: "rewrite_ref (registry r) fo e = ?v" using Some by (simp add: rewrite_ref_def)
    have fr: "frame (registry r) (registry ?r1)"
      by (simp add: frame_modify keeps_identity_def)
    have ext1: "Extends (deref (registry ?r1) p) = (pre @ [?v]) @ es"
      using Cons.prems(1,2) by (simp add: deref_modify Cons.prems(3) [symmetric] list_update_length)
    have "resolveExtends fo p (Suc i) es ?r1 =
           \<lparr>registry = modify (registry ?r1) p
                         (\<lambda>s. s\<lparr>Extends := (pre @ [?v]) @ map (rewrite_ref (registry ?r1) fo) es\<rparr>),
            stats = (stats ?r1)\<lparr>Inheritance := Inheritance (stats ?r1) + count_found (registry ?r1) fo es,
                              Resolved := Resolved (stats ?r1) + count_found (registry ?r1) fo es\<rparr>\<rparr>"
      by (rule Cons.IH) (use Cons.prems ext1 in auto)
    moreover have "modify (registry ?r1) p
                         (\<lambda>s. s\<lparr>Extends := (pre @ [?v]) @ map (rewrite_ref (registry ?r1) fo) es\<rparr>)
         = modify (registry r) p (\<lambda>s. s\<lparr>Extends := pre @ map (rewrite_ref (registry r) fo) (e # es)\<rparr>)"
      using rw rewrite_ref_frame [OF fr] by (simp add: modify_modify comp_def)
    moreover have "count_found (registry r) fo (e # es) = 1 + count_found (registry ?r1) fo es"
      using Some count_found_frame [OF fr, of fo] by (simp add: count_found_def)
    ultimately show ?thesis using Some by simp
  qed
qed

lemma resolveImplements_eq:
  assumes "p < length (store (registry r))" "Implements (deref (registry r) p) = pre @ es"
    "length pre = i"
  shows "resolveImplements fo p i es r =
           \<lparr>registry = modify (registry r) p
                         (\<lambda>s. s\<lparr>Implements := pre @ map (rewrite_ref (registry r) fo) es\<rparr>),
            stats = (stats r)\<lparr>Inheritance := Inheritance (stats r) + count_found (registry r) fo es,
                              Resolved := Resolved (stats r) + count_found (registry r) fo es\<rparr>\<rparr>"
  using assms
proof (induction es arbitrary: r pre i)
  case Nil
  then show ?case by (simp add: count_found_def modify_id)
next
  case (Cons e es)
  show ?case
  proof (cases "findSymbol (registry r) fo e")
    case None
    then have rw: "rewrite_ref (registry r) fo e = e" by (simp add: rewrite_ref_def)
    have "resolveImplements fo p (Suc i) es r = 
           \<lparr>registry = modify (registry r) p
                         (\<lambda>s. s\<lparr>Implements := (pre @ [e]) @ map (rewrite_ref (registry r) fo) es\<rparr>),
            stats = (stats r)\<lparr>Inheritance := Inheritance (stats r) + count_found (registry r) fo es,
                              Resolved := Resolved (stats r) + count_found (registry r) fo es\<rparr>\<rparr>"
      by (rule Cons.IH) (use Cons.prems in auto)
    with None rw show ?thesis by (simp add: count_found_def)
  next
    case (Some q)
    let ?v = "ID (deref (registry r) q)"
    let ?f = "\<lambda>s. s\<lparr>Implements := (Implements s)[i := ?v]\<rparr>"
    let ?r1 = "r\<lparr>registry := modify (registry r) p ?f,
                  stats := (stats r)\<lparr>Inheritance := Inheritance (stats r) + 1,
                                     Resolved := Resolved (stats r) + 1\<rparr>\<rparr>"
    have rw: "rewrite_ref (registry r) fo e = ?v" using Some by (simp add: rewrite_ref_def)
    have fr: "frame (registry r) (registry ?r1)"
      by (simp add: frame_modify keeps_identity_def)
    have impl1: "Implements (deref (registry ?r1) p) = (pre @ [?v]) @ es"
      using Cons.prems(1,2) by (simp add: deref_modify Cons.prems(3) [symmetric] list_update_length)
    have "resolveImplements fo p (Suc i) es ?r1 =
           \<lparr>registry = modify (registry ?r1) p
                         (\<lambda>s. s\<lparr>Implements := (pre @ [?v]) @ map (rewrite_ref (registry ?r1) fo) es\<rparr>),
            stats = (stats ?r1)\<lparr>Inheritance := Inheritance (stats ?r1) + count_found (registry ?r1) fo es,
                              Resolved := Resolved (stats ?r1) + count_found (registry ?r1) fo es\<rparr>\<rparr>"
      by (rule Cons.IH) (use Cons.prems impl1 in auto)
    moreover have "modify (registry ?r1) p
                         (\<lambda>s. s\<lparr>Implements := (pre @ [?v]) @ map (rewrite_ref (registry ?r1) fo) es\<rparr>)
         = modify (registry r) p (\<lambda>s. s\<lparr>Implements := pre @ map (rewrite_ref (registry r) fo) (e # es)\<rparr>)"
      using rw rewrite_ref_frame [OF fr] by (simp add: modify_modify comp_def)
    moreover have "count_found (registry r) fo (e # es) = 1 + count_found (registry ?r1) fo es"
      using Some count_found_frame [OF fr, of fo] by (simp add: count_found_def)
    ultimately show ?thesis using Some by simp
  qed
qed

lemma stats_add_zero [simp]: "stats_add a stats_zero = a"
  by (simp add: stats_add_def stats_zero_def)

lemma stats_add_assoc: "stats_add (stats_add a b) c = stats_add a (stats_add b c)"
  by (simp add: stats_add_def)

lemma inheritanceStep_eq:
  assumes "p < length (store (registry r))"
  shows "inheritanceStep fo p r =
           \<lparr>registry = modify (registry r) p (inh_rewrite (registry r) fo),
            stats = stats_add (stats r) (inh_stats (registry r) fo (deref (registry r) p))\<rparr>"
proof (cases "is_classlike (deref (registry r) p)")
  case False
  then show ?thesis
    by (simp add: inheritanceStep_def is_classlike_def inh_rewrite_def inh_stats_def modify_id)
next
  case True
  let ?reg = "registry r"
  let ?s = "deref ?reg p"
  let ?r1 = "resolveExtends fo p 0 (Extends ?s) r"
  have r1: "?r1 = \<lparr>registry = modify ?reg p (\<lambda>s. s\<lparr>Extends := [] @ map (rewrite_ref ?reg fo) (Extends ?s)\<rparr>),
            stats = (stats r)\<lparr>Inheritance := Inheritance (stats r) + count_found ?reg fo (Extends ?s),
                              Resolved := Resolved (stats r) + count_found ?reg fo (Extends ?s)\<rparr>\<rparr>"
    by (rule resolveExtends_eq) (use assms in auto)
  have fr: "frame ?reg (registry ?r1)"
    unfolding r1 by (simp add: frame_modify keeps_identity_def)
  have len: "p < length (store (registry ?r1))" using assms by (simp add: r1)
  have impl: "Implements (deref (registry ?r1) p) = Implements ?s"
    using assms by (simp add: r1 deref_modify)
  have r2: "resolveImplements fo p 0 (Implements ?s) ?r1 =
         \<lparr>registry = modify (registry ?r1) p (\<lambda>s. s\<lparr>Implements := [] @ map (rewrite_ref (registry ?r1) fo) (Implements ?s)\<rparr>),
            stats = (stats ?r1)\<lparr>Inheritance := Inheritance (stats ?r1) + count_found (registry ?r1) fo (Implements ?s),
                              Resolved := Resolved (stats ?r1) + count_found (registry ?r1) fo (Implements ?s)\<rparr>\<rparr>"
    by (rule resolveImplements_eq) (use len impl in auto)
  have m: "modify (registry ?r1) p (\<lambda>s. s\<lparr>Implements := [] @ map (rewrite_ref (registry ?r1) fo) (Implements ?s)\<rparr>)
        = modify ?reg p (inh_rewrite ?reg fo)"
    unfolding rewrite_ref_frame [OF fr]
    by (simp add: r1 modify_modify) (rule modify_cong, simp add: inh_rewrite_def True)
  have st: "(stats ?r1)\<lparr>Inheritance := Inheritance (stats ?r1) + count_found (registry ?r1) fo (Implements ?s),
                              Resolved := Resolved (stats ?r1) + count_found (registry ?r1) fo (Implements ?s)\<rparr>
        = stats_add (stats r) (inh_stats ?reg fo ?s)"
    unfolding count_found_frame [OF fr]
    by (simp add: r1 stats_add_def inh_stats_def True)
  have "inheritanceStep fo p r = resolveImplements fo p 0 (Implements ?s) ?r1"
    using True impl by (auto simp: inheritanceStep_def is_classlike_def Let_def)
  then show ?thesis unfolding r2 m st .
qed

lemma fold_pointwise:
  assumes step: "\<And>p r. p < length (store (registry r)) \<Longrightarrow>
       step p r = \<lparr>registry = modify (registry r) p (F (registry r)),
                   stats = stats_add (stats r) (D (registry r) (deref (registry r) p))\<rparr>"
    and keep: "\<And>reg. keeps_identity (F reg)"
    and Ff: "\<And>reg reg'. frame reg reg' \<Longrightarrow> F reg' = F reg"
    and Df: "\<And>reg reg'. frame reg reg' \<Longrightarrow> D reg' = D reg"
    and "distinct ps" and "\<forall>p\<in>set ps. p < length (store (registry r))"
  shows "frame (registry r) (registry (fold step ps r)) \<and>
         (\<forall>q. deref (registry (fold step ps r)) q =
               (if q \<in> set ps then F (registry r) (deref (registry r) q)
                else deref (registry r) q)) \<and>
         stats (fold step ps r) =
           stats_add (stats r) (stats_sum (map (\<lambda>p. D (registry r) (deref (registry r) p)) ps))"
  using assms(5,6)
proof (induction ps arbitrary: r)
  case Nil
  then show ?case by simp
next
  case (Cons p ps)
  let ?reg = "registry r"
  let ?r1 = "step p r"
  have p: "p < length (store ?reg)" and pn: "p \<notin> set ps" and d: "distinct ps"
    using Cons.prems by auto
  have r1: "?r1 = \<lparr>registry = modify ?reg p (F ?reg),
                   stats = stats_add (stats r) (D ?reg (deref ?reg p))\<rparr>"
    by (rule step [OF p])
  have fr: "frame ?reg (registry ?r1)"
    unfolding r1 by (simp add: frame_modify keep)
  have len: "\<forall>q\<in>set ps. q < length (store (registry ?r1))"
    using Cons.prems by (simp add: r1)
  note IH = Cons.IH [OF d len]
  have d1: "deref (registry ?r1) q = (if q = p then F ?reg (deref ?reg p) else deref ?reg q)" for q
    using p by (simp add: r1 deref_modify)
  have "frame ?reg (registry (fold step (p # ps) r))"
    using IH fr by (auto intro: frame_trans)
  moreover have "deref (registry (fold step (p # ps) r)) q =
               (if q \<in> set (p # ps) then F ?reg (deref ?reg q) else deref ?reg q)" for q
    using IH pn by (auto simp: Ff [OF fr] d1)
  moreover have "stats (fold step (p # ps) r) =
           stats_add (stats r) (stats_sum (map (\<lambda>p. D ?reg (deref ?reg p)) (p # ps)))"
  proof -
    have mp: "map (\<lambda>q. D (registry ?r1) (deref (registry ?r1) q)) ps =
                 map (\<lambda>q. D ?reg (deref ?reg q)) ps"
      using pn by (auto simp: Df [OF fr] d1)
    have st1: "stats ?r1 = stats_add (stats r) (D ?reg (deref ?reg p))"
      by (simp add: r1)
    have "stats (fold step ps ?r1) = stats_add (stats ?r1)
            (stats_sum (map (\<lambda>q. D (registry ?r1) (deref (registry ?r1) q)) ps))"
      using IH by blast
    then show ?thesis
      by (simp only: fold_simps mp st1 stats_add_assoc list.map stats_sum.simps)
  qed
  ultimately show ?case by blast
qed

lemma see_frame:
  assumes "frame reg reg'"
  shows "see_ref reg' fo = see_ref reg fo" "see_found reg' fo = see_found reg fo"
    "see_missed reg' fo = see_missed reg fo"
  by (simp_all add: see_ref_def see_found_def see_missed_def fun_eq_iff
      findSymbol_frame [OF assms] frame_fields(5) [OF assms] cong: option.case_cong)

lemma resolveSee_eq:
  assumes "p < length (store (registry r))" "SeeAlso (Doc (deref (registry r) p)) = pre @ refs"
    "length pre = i"
  shows "resolveSee fo p i refs r =
           \<lparr>registry = modify (registry r) p
                         (\<lambda>s. s\<lparr>Doc := (Doc s)\<lparr>SeeAlso := pre @ map (see_ref (registry r) fo) refs\<rparr>\<rparr>),
            stats = (stats r)\<lparr>Resolved := Resolved (stats r) +
                                  int (length (filter (see_found (registry r) fo) refs)),
                              Unresolved := Unresolved (stats r) +
                                  int (length (filter (see_missed (registry r) fo) refs))\<rparr>\<rparr>"
  using assms
proof (induction refs arbitrary: r pre i)
  case Nil
  then show ?case by (simp add: modify_id)
next
  case (Cons e es)
  let ?reg = "registry r"
  have IH0: "resolveSee fo p (Suc i) es r =
           \<lparr>registry = modify ?reg p
                         (\<lambda>s. s\<lparr>Doc := (Doc s)\<lparr>SeeAlso := (pre @ [e]) @ map (see_ref ?reg fo) es\<rparr>\<rparr>),
            stats = (stats r)\<lparr>Resolved := Resolved (stats r) +
                                  int (length (filter (see_found ?reg fo) es)),
                              Unresolved := Unresolved (stats r) +
                                  int (length (filter (see_missed ?reg fo) es))\<rparr>\<rparr>"
    by (rule Cons.IH) (use Cons.prems in auto)
  show ?case
  proof (cases "TrimSpace e = []")
    case True
    then have "see_ref ?reg fo e = e" "\<not> see_found ?reg fo e" "\<not> see_missed ?reg fo e"
      by (simp_all add: see_ref_def see_found_def see_missed_def)
    with True IH0 show ?thesis by simp
  next
    case False
    show ?thesis
    proof (cases "findSymbol ?reg fo (TrimSuffix (TrimSpace e) ''()'')")
      case None
      let ?r1 = "r\<lparr>stats := (stats r)\<lparr>Unresolved := Unresolved (stats r) + 1\<rparr>\<rparr>"
      have e: "see_ref ?reg fo e = e" "\<not> see_found ?reg fo e" "see_missed ?reg fo e"
        using None False by (simp_all add: see_ref_def see_found_def see_missed_def)
      have "resolveSee fo p (Suc i) es ?r1 =
           \<lparr>registry = modify (registry ?r1) p
                         (\<lambda>s. s\<lparr>Doc := (Doc s)\<lparr>SeeAlso := (pre @ [e]) @ map (see_ref (registry ?r1) fo) es\<rparr>\<rparr>),
            stats = (stats ?r1)\<lparr>Resolved := Resolved (stats ?r1) +
                                  int (length (filter (see_found (registry ?r1) fo) es)),
                              Unresolved := Unresolved (stats ?r1) +
                                  int (length (filter (see_missed (registry ?r1) fo) es))\<rparr>\<rparr>"
        by (rule Cons.IH) (use Cons.prems in auto)
      with None False e show ?thesis by simp
    next
      case (Some q)
      let ?v = "ID (deref ?reg q)"
      let ?f = "\<lambda>s. s\<lparr>Doc := (Doc s)\<lparr>SeeAlso := (SeeAlso (Doc s))[i := ?v]\<rparr>\<rparr>"
      let ?r1 = "r\<lparr>registry := modify ?reg p ?f,
                    stats := (stats r)\<lparr>Resolved := Resolved (stats r) + 1\<rparr>\<rparr>"
      have e: "see_ref ?reg fo e = ?v" "see_found ?reg fo e" "\<not> see_missed ?reg fo e"
        using Some False by (simp_all add: see_ref_def see_found_def see_missed_def)
      have fr: "frame ?reg (registry ?r1)"
        by (simp add: frame_modify keeps_identity_def)
      have see1: "SeeAlso (Doc (deref (registry ?r1) p)) = (pre @ [?v]) @ es"
        using Cons.prems(1,2) by (simp add: deref_modify Cons.prems(3) [symmetric] list_update_length)
      have "resolveSee fo p (Suc i) es ?r1 =
           \<lparr>registry = modify (registry ?r1) p
                         (\<lambda>s. s\<lparr>Doc := (Doc s)\<lparr>SeeAlso := (pre @ [?v]) @ map (see_ref (registry ?r1) fo) es\<rparr>\<rparr>),
            stats = (stats ?r1)\<lparr>Resolved := Resolved (stats ?r1) +
                                  int (length (filter (see_found (registry ?r1) fo) es)),
                              Unresolved := Unresolved (stats ?r1) +
                                  int (length (filter (see_missed (registry ?r1) fo) es))\<rparr>\<rparr>"
        by (rule Cons.IH) (use Cons.prems see1 in auto)
      moreover have "modify (registry ?r1) p
                         (\<lambda>s. s\<lparr>Doc := (Doc s)\<lparr>SeeAlso := (pre @ [?v]) @ map (see_ref (registry ?r1) fo) es\<rparr>\<rparr>)
         = modify ?reg p (\<lambda>s. s\<lparr>Doc := (Doc s)\<lparr>SeeAlso := pre @ map (see_ref ?reg fo) (e # es)\<rparr>\<rparr>)"
        using e see_frame(1) [OF fr] by (simp add: modify_modify comp_def)
      ultimately show ?thesis using Some False e see_frame(2,3) [OF fr, of fo] by simp
    qed
  qed
qed

lemma seeStep_eq:
  assumes "p < length (store (registry r))"
  shows "seeStep fo p r =
           \<lparr>registry = modify (registry r) p (see_rewrite (registry r) fo),
            stats = stats_add (stats r) (see_stats (registry r) fo (deref (registry r) p))\<rparr>"
proof -
  let ?reg = "registry r"
  let ?s = "deref ?reg p"
  have "seeStep fo p r = \<lparr>registry = modify ?reg p
                         (\<lambda>s. s\<lparr>Doc := (Doc s)\<lparr>SeeAlso := [] @ map (see_ref ?reg fo) (SeeAlso (Doc ?s))\<rparr>\<rparr>),
            stats = (stats r)\<lparr>Resolved := Resolved (stats r) +
                                  int (length (filter (see_found ?reg fo) (SeeAlso (Doc ?s)))),
                              Unresolved := Unresolved (stats r) +
                                  int (length (filter (see_missed ?reg fo) (SeeAlso (Doc ?s))))\<rparr>\<rparr>"
    unfolding seeStep_def by (rule resolveSee_eq) (use assms in auto)
  moreover have "modify ?reg p
                         (\<lambda>s. s\<lparr>Doc := (Doc s)\<lparr>SeeAlso := [] @ map (see_ref ?reg fo) (SeeAlso (Doc ?s))\<rparr>\<rparr>)
       = modify ?reg p (see_rewrite ?reg fo)"
    by (rule modify_cong) (simp add: see_rewrite_def)
  ultimately show ?thesis by (simp add: stats_add_def see_stats_def)
qed

lemma wf_AllSymbols_valid:
  "wf_registry reg \<Longrightarrow> \<forall>p\<in>set (AllSymbols reg ord). p < length (store reg)"
  by (auto simp: AllSymbols_def map_filter_def wf_registry_def)

lemma resolveInheritance_char:
  assumes "wf_registry (registry r)" "enumerates (registry r) ord"
  shows "frame (registry r) (registry (resolveInheritance ord fo r)) \<and>
         (\<forall>q. deref (registry (resolveInheritance ord fo r)) q =
               (if q \<in> ran (symbols (registry r))
                then inh_rewrite (registry r) fo (deref (registry r) q)
                else deref (registry r) q)) \<and>
         stats (resolveInheritance ord fo r) =
           stats_add (stats r)
             (stats_sum (map (\<lambda>p. inh_stats (registry r) fo (deref (registry r) p))
                             (AllSymbols (registry r) ord)))"
  unfolding resolveInheritance_def AllSymbols_set [OF assms(2), symmetric]
proof (rule fold_pointwise [where F = "\<lambda>reg. inh_rewrite reg fo" and D = "\<lambda>reg. inh_stats reg fo"])
  show "inheritanceStep fo p r =
         \<lparr>registry = modify (registry r) p (inh_rewrite (registry r) fo),
            stats = stats_add (stats r) (inh_stats (registry r) fo (deref (registry r) p))\<rparr>"
    if "p < length (store (registry r))" for p r
    using that by (rule inheritanceStep_eq)
  show "keeps_identity (inh_rewrite reg fo)" for reg
    by (simp add: keeps_identity_def inh_rewrite_def is_classlike_def)
  show "inh_rewrite reg' fo = inh_rewrite reg fo" if "frame reg reg'" for reg reg'
    by (simp add: inh_rewrite_def fun_eq_iff rewrite_ref_frame [OF that])
  show "inh_stats reg' fo = inh_stats reg fo" if "frame reg reg'" for reg reg'
    by (simp add: inh_stats_def fun_eq_iff count_found_frame [OF that])
  show "distinct (AllSymbols (registry r) ord)"
    using assms by (rule AllSymbols_distinct)
  show "\<forall>p\<in>set (AllSymbols (registry r) ord). p < length (store (registry r))"
    using assms(1) by (rule wf_AllSymbols_valid)
qed

lemma resolveSeeReferences_char:
  assumes "wf_registry (registry r)" "enumerates (registry r) ord"
  shows "frame (registry r) (registry (resolveSeeReferences ord fo r)) \<and>
         (\<forall>q. deref (registry (resolveSeeReferences ord fo r)) q =
               (if q \<in> ran (symbols (registry r))
                then see_rewrite (registry r) fo (deref (registry r) q)
                else deref (registry r) q)) \<and>
         stats (resolveSeeReferences ord fo r) =
           stats_add (stats r)
             (stats_sum (map (\<lambda>p. see_stats (registry r) fo (deref (registry r) p))
                             (AllSymbols (registry r) ord)))"
  unfolding resolveSeeReferences_def AllSymbols_set [OF assms(2), symmetric]
proof (rule fold_pointwise [where F = "\<lambda>reg. see_rewrite reg fo" and D = "\<lambda>reg. see_stats reg fo"])
  show "seeStep fo p r =
         \<lparr>registry = modify (registry r) p (see_rewrite (registry r) fo),
            stats = stats_add (stats r) (see_stats (registry r) fo (deref (registry r) p))\<rparr>"
    if "p < length (store (registry r))" for p r
    using that by (rule seeStep_eq)
  show "keeps_identity (see_rewrite reg fo)" for reg
    by (simp add: keeps_identity_def see_rewrite_def)
  show "see_rewrite reg' fo = see_rewrite reg fo" if "frame reg reg'" for reg reg'
    by (simp add: see_rewrite_def fun_eq_iff see_frame [OF that])
  show "see_stats reg' fo = see_stats reg fo" if "frame reg reg'" for reg reg'
    by (simp add: see_stats_def fun_eq_iff see_frame [OF that])
  show "distinct (AllSymbols (registry r) ord)"
    using assms by (rule AllSymbols_distinct)
  show "\<forall>p\<in>set (AllSymbols (registry r) ord). p < length (store (registry r))"
    using assms(1) by (rule wf_AllSymbols_valid)
qed

lemma stats_sum_fields:
  "Resolved (stats_sum ds) = sum_list (map Resolved ds)"
  "Unresolved (stats_sum ds) = sum_list (map Unresolved ds)"
  "Inheritance (stats_sum ds) = sum_list (map Inheritance ds)"
  "HookBindings (stats_sum ds) = sum_list (map HookBindings ds)"
  by (induction ds) (simp_all add: stats_zero_def stats_add_def)

lemma wf_insert_new: "wf_registry r \<Longrightarrow> wf_registry (snd (insert_new r s))"
  by (auto simp: insert_new_def new_symbol_def wf_registry_def Add_def deref_def nth_append
      less_Suc_eq split: if_splits)

lemma wf_ingest: "wf_registry r \<Longrightarrow> wf_registry (fold (\<lambda>s r. snd (insert_new r s)) ss r)"
  by (induction ss arbitrary: r) (simp_all add: wf_insert_new)

text \<open>
  C4.  In the inheritance pass every entry of \<open>Extends\<close> and of \<open>Implements\<close> of a class
  or interface symbol is rewritten in place to the ID of the symbol the name lookup
  finds, and an entry the lookup does not resolve stays the literal name, at its
  position.  So a class \<open>Foo\<close> that implements a \<open>Bar\<close> which was never ingested still has
  \<open>Bar\<close> in \<open>Implements\<close> after the pass.
\<close>

theorem resolveInheritance_rewrites:
  assumes "wf_registry (registry r)" and "enumerates (registry r) ord"
    and "Get (registry r) k = Some p"
    and "Kind (deref (registry r) p) = KindClass \<or> Kind (deref (registry r) p) = KindInterface"
  shows "let reg = registry r; s = deref reg p;
             s' = deref (registry (resolveInheritance ord fo r)) p;
             rewrite = (\<lambda>e. case findSymbol reg fo e of None \<Rightarrow> e | Some q \<Rightarrow> ID (deref reg q))
         in Extends s' = map rewrite (Extends s) \<and> Implements s' = map rewrite (Implements s)"
proof -
  have "p \<in> ran (symbols (registry r))"
    using assms(3) by (auto simp: Get_def ran_def)
  then have "deref (registry (resolveInheritance ord fo r)) p =
             inh_rewrite (registry r) fo (deref (registry r) p)"
    using resolveInheritance_char [OF assms(1,2), of fo] by simp
  moreover have "rewrite_ref (registry r) fo =
      (\<lambda>e. case findSymbol (registry r) fo e of None \<Rightarrow> e | Some q \<Rightarrow> ID (deref (registry r) q))"
    by (simp add: rewrite_ref_def fun_eq_iff)
  ultimately show ?thesis
    using assms(4) by (simp add: Let_def inh_rewrite_def is_classlike_def)
qed

text \<open>
  C5, as the code has it.  In the \<open>@see\<close> pass a reference that is empty after trimming
  is skipped: the entry stays and neither counter moves.  Every other reference is
  trimmed, loses one trailing \<open>()\<close>, and is looked up; if the lookup finds a symbol the
  entry becomes that symbol's ID and \<open>Resolved\<close> grows by one, otherwise the entry
  stays the literal string and \<open>Unresolved\<close> grows by one.
\<close>

theorem resolveSeeReferences_rewrites:
  assumes "wf_registry (registry r)" and "enumerates (registry r) ord"
    and "Get (registry r) k = Some p"
  shows "let reg = registry r; r' = resolveSeeReferences ord fo r
         in SeeAlso (Doc (deref (registry r') p)) =
              map (\<lambda>ref. if TrimSpace ref = [] then ref
                         else case findSymbol reg fo (TrimSuffix (TrimSpace ref) ''()'') of
                                None \<Rightarrow> ref | Some q \<Rightarrow> ID (deref reg q))
                  (SeeAlso (Doc (deref reg p))) \<and>
            Resolved (stats r') = Resolved (stats r) +
              (\<Sum>q\<leftarrow>AllSymbols reg ord. int (length (filter
                  (\<lambda>ref. TrimSpace ref \<noteq> [] \<and>
                         findSymbol reg fo (TrimSuffix (TrimSpace ref) ''()'') \<noteq> None)
                  (SeeAlso (Doc (deref reg q)))))) \<and>
            Unresolved (stats r') = Unresolved (stats r) +
              (\<Sum>q\<leftarrow>AllSymbols reg ord. int (length (filter
                  (\<lambda>ref. TrimSpace ref \<noteq> [] \<and>
                         findSymbol reg fo (TrimSuffix (TrimSpace ref) ''()'') = None)
                  (SeeAlso (Doc (deref reg q))))))"
proof -
  note ch = resolveSeeReferences_char [OF assms(1,2), of fo]
  have "p \<in> ran (symbols (registry r))"
    using assms(3) by (auto simp: Get_def ran_def)
  then have "deref (registry (resolveSeeReferences ord fo r)) p =
             see_rewrite (registry r) fo (deref (registry r) p)"
    using ch by simp
  moreover have "see_ref (registry r) fo =
      (\<lambda>ref. if TrimSpace ref = [] then ref
              else case findSymbol (registry r) fo (TrimSuffix (TrimSpace ref) ''()'') of
                     None \<Rightarrow> ref | Some q \<Rightarrow> ID (deref (registry r) q))"
    by (simp add: see_ref_def fun_eq_iff)
  moreover have "see_found (registry r) fo = (\<lambda>ref. TrimSpace ref \<noteq> [] \<and>
         findSymbol (registry r) fo (TrimSuffix (TrimSpace ref) ''()'') \<noteq> None)"
    and "see_missed (registry r) fo = (\<lambda>ref. TrimSpace ref \<noteq> [] \<and>
         findSymbol (registry r) fo (TrimSuffix (TrimSpace ref) ''()'') = None)"
    by (simp_all add: see_found_def see_missed_def fun_eq_iff)
  moreover have "stats (resolveSeeReferences ord fo r) =
           stats_add (stats r)
             (stats_sum (map (\<lambda>p. see_stats (registry r) fo (deref (registry r) p))
                             (AllSymbols (registry r) ord)))"
    using ch by blast
  ultimately show ?thesis
    by (simp add: Let_def see_rewrite_def stats_add_def stats_sum_fields comp_def see_stats_def)
qed

lemma scenario_registry_eq:
  "store scenario_registry = scenario_symbols"
  "symbols scenario_registry =
     [base_id \<mapsto> 0, base_save_id \<mapsto> 1, ''Foo'' \<mapsto> 2, ''Foo::save'' \<mapsto> 3, ''some_function'' \<mapsto> 4]"
  by (simp_all add: scenario_registry_def scenario_symbols_def insert_new_def new_symbol_def
      Add_def deref_def NewRegistry_def zero_Symbol_def base_id_def base_save_id_def
      eval_nat_numeral)

lemma scenario_wf: "wf_registry scenario_registry"
  unfolding scenario_registry_def by (rule wf_ingest [OF wf_NewRegistry])

lemma scenario_enumerates: "enumerates scenario_registry scenario_order"
  by (auto simp: enumerates_def scenario_registry_eq scenario_order_def base_id_def base_save_id_def)

lemmas scenario_eval =
  findSymbol_def Get_def scenario_registry_eq AllSymbols_def map_filter_def deref_def
  scenario_order_def scenario_symbols_def base_id_def base_save_id_def ReplaceAll_def
  zero_Symbol_def New_def modify_def

theorem findSymbol_lookup_order_witness:
  "wf_registry scenario_registry \<and> enumerates scenario_registry scenario_order \<and>
   Get scenario_registry ''Foo'' = Some 2 \<and>
   findSymbol scenario_registry scenario_order ''Foo'' = Some 2 \<and>
   Get scenario_registry ''App/Base'' = None \<and>
   Get scenario_registry (ReplaceAll ''App/Base'' (CHR ''/'') (CHR 0x5C)) = Some 0 \<and>
   findSymbol scenario_registry scenario_order ''App/Base'' = Some 0 \<and>
   Get scenario_registry ''lib/Base'' = None \<and>
   Get scenario_registry (ReplaceAll ''lib/Base'' (CHR ''/'') (CHR 0x5C)) = None \<and>
   short_candidates scenario_registry ''lib/Base'' = {0} \<and>
   findSymbol scenario_registry scenario_order ''lib/Base'' = Some 0 \<and>
   Get scenario_registry ''save'' = None \<and>
   Get scenario_registry (ReplaceAll ''save'' (CHR ''/'') (CHR 0x5C)) = None \<and>
   1 \<in> short_candidates scenario_registry ''save'' \<and>
   3 \<in> short_candidates scenario_registry ''save'' \<and>
   findSymbol scenario_registry scenario_order ''save'' = None"
proof -
  note th = findSymbol_lookup_order [OF scenario_wf scenario_enumerates]
  have a: "Get scenario_registry ''Foo'' = Some 2"
    by (simp add: scenario_eval)
  have b: "Get scenario_registry ''App/Base'' = None"
    "Get scenario_registry (ReplaceAll ''App/Base'' (CHR ''/'') (CHR 0x5C)) = Some 0"
    by (simp_all add: scenario_eval)
  have c: "Get scenario_registry ''lib/Base'' = None"
    "Get scenario_registry (ReplaceAll ''lib/Base'' (CHR ''/'') (CHR 0x5C)) = None"
    "findSymbol scenario_registry scenario_order ''lib/Base'' = Some 0"
    by (simp_all add: scenario_eval)
  have d: "Get scenario_registry ''save'' = None"
    "Get scenario_registry (ReplaceAll ''save'' (CHR ''/'') (CHR 0x5C)) = None"
    by (simp_all add: scenario_eval)
  have sn: "short_name ''save'' = ''save''"
    by (simp add: short_name_def separators_def)
  have e: "1 \<in> short_candidates scenario_registry ''save''"
    "3 \<in> short_candidates scenario_registry ''save''"
  proof -
    have k: "symbols scenario_registry base_save_id = Some 1"
      "symbols scenario_registry ''Foo::save'' = Some 3"
      by (simp_all add: scenario_eval)
    have n: "Name (deref scenario_registry 1) = short_name ''save''"
      "Name (deref scenario_registry 3) = short_name ''save''"
      unfolding sn by (simp_all add: deref_def scenario_registry_eq(1) scenario_symbols_def)
    show "1 \<in> short_candidates scenario_registry ''save''"
      unfolding short_candidates_def using k(1) n(1) by blast
    show "3 \<in> short_candidates scenario_registry ''save''"
      unfolding short_candidates_def using k(2) n(2) by blast
  qed
  have 1: "findSymbol scenario_registry scenario_order ''Foo'' = Some 2"
    using th [of "''Foo''", THEN conjunct1, rule_format, OF a] .
  have 2: "findSymbol scenario_registry scenario_order ''App/Base'' = Some 0"
    using th [of "''App/Base''", THEN conjunct2, THEN conjunct1, rule_format, OF conjI [OF b]] .
  note scan = th [THEN conjunct2, THEN conjunct2, rule_format]
  have 3: "short_candidates scenario_registry ''lib/Base'' = {0}"
    using scan [OF conjI [OF c(1,2)], THEN conjunct1, rule_format, THEN iffD1, OF c(3)] .
  have ex: "\<exists>p q. p \<in> short_candidates scenario_registry ''save'' \<and>
               q \<in> short_candidates scenario_registry ''save'' \<and> p \<noteq> q"
    using e by (intro exI [of _ 1] exI [of _ 3]) simp
  have 4: "findSymbol scenario_registry scenario_order ''save'' = None"
    using scan [OF conjI [OF d], THEN conjunct2, rule_format, OF disjI2 [OF ex]] .
  show ?thesis
    by (intro conjI) (fact scenario_wf scenario_enumerates a b c d e 1 2 3 4)+
qed

theorem resolveInheritance_rewrites_witness:
  "wf_registry (registry (New scenario_registry)) \<and>
   enumerates (registry (New scenario_registry)) scenario_order \<and>
   Get (registry (New scenario_registry)) ''Foo'' = Some 2 \<and>
   Kind (deref (registry (New scenario_registry)) 2) = KindClass \<and>
   Extends (deref (registry (New scenario_registry)) 2) = [''Base''] \<and>
   Implements (deref (registry (New scenario_registry)) 2) = [''Bar''] \<and>
   findSymbol (registry (New scenario_registry)) scenario_order ''Bar'' = None \<and>
   Extends (deref (registry (resolveInheritance scenario_order scenario_order
                               (New scenario_registry))) 2) = [base_id] \<and>
   Implements (deref (registry (resolveInheritance scenario_order scenario_order
                               (New scenario_registry))) 2) = [''Bar'']"
proof -
  have reg: "registry (New scenario_registry) = scenario_registry"
    by (simp add: New_def)
  have w: "wf_registry (registry (New scenario_registry))"
    and e: "enumerates (registry (New scenario_registry)) scenario_order"
    unfolding reg by (rule scenario_wf, rule scenario_enumerates)
  have g: "Get (registry (New scenario_registry)) ''Foo'' = Some 2"
    and k: "Kind (deref (registry (New scenario_registry)) 2) = KindClass"
    and x: "Extends (deref (registry (New scenario_registry)) 2) = [''Base'']"
           "Implements (deref (registry (New scenario_registry)) 2) = [''Bar'']"
    and f: "findSymbol (registry (New scenario_registry)) scenario_order ''Bar'' = None"
           "findSymbol (registry (New scenario_registry)) scenario_order ''Base'' = Some 0"
           "ID (deref (registry (New scenario_registry)) 0) = base_id"
    unfolding reg by (simp_all add: scenario_eval)
  from k have k': "Kind (deref (registry (New scenario_registry)) 2) = KindClass \<or>
                   Kind (deref (registry (New scenario_registry)) 2) = KindInterface" ..
  from resolveInheritance_rewrites [OF w e g k', of scenario_order]
  have "Extends (deref (registry (resolveInheritance scenario_order scenario_order
                               (New scenario_registry))) 2) = [base_id] \<and>
   Implements (deref (registry (resolveInheritance scenario_order scenario_order
                               (New scenario_registry))) 2) = [''Bar'']"
    by (simp add: Let_def x f)
  with w e g k x f show ?thesis by simp
qed

theorem resolveSeeReferences_rewrites_witness:
  "wf_registry (registry (New scenario_registry)) \<and>
   enumerates (registry (New scenario_registry)) scenario_order \<and>
   Get (registry (New scenario_registry)) ''Foo::save'' = Some 3 \<and>
   SeeAlso (Doc (deref (registry (New scenario_registry)) 3)) =
     [''some_function()'', ''save'', [], ''App/Base''] \<and>
   SeeAlso (Doc (deref (registry (resolveSeeReferences scenario_order scenario_order
                                    (New scenario_registry))) 3)) =
     [''some_function'', ''save'', [], base_id] \<and>
   Resolved (stats (resolveSeeReferences scenario_order scenario_order
                      (New scenario_registry))) = 2 \<and>
   Unresolved (stats (resolveSeeReferences scenario_order scenario_order
                      (New scenario_registry))) = 1"
proof -
  have reg: "registry (New scenario_registry) = scenario_registry"
    by (simp add: New_def)
  have w: "wf_registry (registry (New scenario_registry))"
    and e: "enumerates (registry (New scenario_registry)) scenario_order"
    unfolding reg by (rule scenario_wf, rule scenario_enumerates)
  have g: "Get (registry (New scenario_registry)) ''Foo::save'' = Some 3"
    and x: "SeeAlso (Doc (deref (registry (New scenario_registry)) 3)) =
              [''some_function()'', ''save'', [], ''App/Base'']"
    unfolding reg by (simp_all add: scenario_eval)
  have t: "TrimSpace ''some_function()'' = ''some_function()''" "TrimSpace ''save'' = ''save''"
    "TrimSpace [] = []" "TrimSpace ''App/Base'' = ''App/Base''"
    by (simp_all add: TrimSpace_def leadingRuneLen_def spaceRunes_def)
  have s: "TrimSuffix ''some_function()'' ''()'' = ''some_function''"
    "TrimSuffix ''save'' ''()'' = ''save''" "TrimSuffix ''App/Base'' ''()'' = ''App/Base''"
    by (simp_all add: TrimSuffix_def)
  have f: "findSymbol scenario_registry scenario_order ''some_function'' = Some 4"
    "findSymbol scenario_registry scenario_order ''save'' = None"
    "findSymbol scenario_registry scenario_order ''App/Base'' = Some 0"
    by (simp_all add: scenario_eval)
  have a: "AllSymbols scenario_registry scenario_order = [4, 3, 2, 1, 0]"
    by (simp add: scenario_eval)
  have d: "SeeAlso (Doc (deref scenario_registry 4)) = []"
    "SeeAlso (Doc (deref scenario_registry 3)) = [''some_function()'', ''save'', [], ''App/Base'']"
    "SeeAlso (Doc (deref scenario_registry 2)) = []"
    "SeeAlso (Doc (deref scenario_registry (Suc 0))) = []"
    "SeeAlso (Doc (deref scenario_registry 0)) = []"
    "ID (deref scenario_registry 0) = base_id" "ID (deref scenario_registry 4) = ''some_function''"
    by (simp_all add: deref_def scenario_registry_eq scenario_symbols_def zero_Symbol_def)
  from resolveSeeReferences_rewrites [OF w e g, of scenario_order]
  have "SeeAlso (Doc (deref (registry (resolveSeeReferences scenario_order scenario_order
                                    (New scenario_registry))) 3)) =
     [''some_function'', ''save'', [], base_id] \<and>
   Resolved (stats (resolveSeeReferences scenario_order scenario_order
                      (New scenario_registry))) = 2 \<and>
   Unresolved (stats (resolveSeeReferences scenario_order scenario_order
                      (New scenario_registry))) = 1"
    unfolding reg Let_def a by (simp add: d t s f) (simp add: New_def)
  with w e g x show ?thesis by simp
qed

text \<open>
  A docblock line \<open>@see\<close> with nothing after it yields the empty reference.  Its lookup
  fails, yet \<open>Unresolved\<close> stays 0 after the pass.
\<close>

lemma blank_see_registry_eq:
  "store blank_see_registry =
     [zero_Symbol\<lparr>ID := ''f'', Name := ''f'', Doc := (Doc zero_Symbol)\<lparr>SeeAlso := [[]]\<rparr>\<rparr>]"
  "symbols blank_see_registry = [''f'' \<mapsto> 0]"
  by (simp_all add: blank_see_registry_def insert_new_def new_symbol_def Add_def deref_def
      NewRegistry_def)

lemma blank_t: "TrimSpace [] = []" by (simp add: TrimSpace_def)

lemma blank_s: "TrimSuffix [] ''()'' = []" by (simp add: TrimSuffix_def)

lemma blank_a: "AllSymbols blank_see_registry [''f''] = [0]"
    by (simp add: AllSymbols_def map_filter_def blank_see_registry_eq)

lemma blank_d: "SeeAlso (Doc (deref blank_see_registry 0)) = [[]]"
    by (simp add: deref_def blank_see_registry_eq)

lemma blank_f: "findSymbol blank_see_registry [''f''] [] = None"
    by (simp add: findSymbol_def Get_def blank_see_registry_eq blank_a deref_def ReplaceAll_def
        zero_Symbol_def)

lemma blank_r: "resolveSeeReferences [''f''] [''f''] (New blank_see_registry) = New blank_see_registry"
    by (simp add: resolveSeeReferences_def seeStep_def New_def blank_a blank_d blank_t)

theorem resolveSeeReferences_blank_counterexample:
  "SeeAlso (Doc (deref blank_see_registry 0)) = [[]] \<and>
   findSymbol blank_see_registry [''f''] (TrimSuffix (TrimSpace []) ''()'') = None \<and>
   Unresolved (stats (New blank_see_registry)) = 0 \<and>
   Unresolved (stats (resolveSeeReferences [''f''] [''f''] (New blank_see_registry))) = 0 \<and>
   Resolved (stats (resolveSeeReferences [''f''] [''f''] (New blank_see_registry))) = 0"
  by (simp add: blank_r blank_t blank_s blank_d blank_f) (simp add: New_def)

lemma append_all_simps [simp]:
  "append_all xs [] = xs"
  "append_all xs (v # vs) = append_all (appendUnique xs v) vs"
  by (simp_all add: append_all_def)

lemma append_all_append: "append_all xs (us @ vs) = append_all (append_all xs us) vs"
  by (simp add: append_all_def)

lemma set_append_all: "set (append_all xs vs) = set xs \<union> set vs"
  by (induction vs arbitrary: xs) (auto simp: appendUnique_def)


lemma append_all_prefix: "\<exists>ys. append_all xs vs = xs @ ys"
proof (induction vs arbitrary: xs)
  case Nil
  then show ?case by simp
next
  case (Cons v vs)
  from Cons.IH [of "appendUnique xs v"] obtain ys
    where "append_all (appendUnique xs v) vs = appendUnique xs v @ ys" by blast
  then show ?case by (auto simp: appendUnique_def)
qed

lemma xref_ext_refl: "xref_ext reg (\<lambda>_. None) (\<lambda>_. []) reg"
  by (simp add: xref_ext_def)

lemma xref_ext_trans:
  assumes "xref_ext a ov1 c1 b" "xref_ext b ov2 c2 c"
  shows "xref_ext a (\<lambda>q. case ov2 q of None \<Rightarrow> ov1 q | Some v \<Rightarrow> Some v) (\<lambda>q. c1 q @ c2 q) c"
  using assms unfolding xref_ext_def
  by (auto simp: append_all_append split: option.splits)

lemma xref_ext_eq:
  "xref_ext a ov c b \<Longrightarrow> ov = ov' \<Longrightarrow> c = c' \<Longrightarrow> xref_ext a ov' c' b"
  by simp

lemma xref_ext_fields:
  assumes "xref_ext reg ov c reg'"
  shows "symbols reg' = symbols reg" "byKind reg' = byKind reg" "byFile reg' = byFile reg"
    "length (store reg') = length (store reg)"
    "deref reg' q = (deref reg q)\<lparr>Overrides := (case ov q of None \<Rightarrow> Overrides (deref reg q) | Some v \<Rightarrow> v),
                           UsedBy := append_all (UsedBy (deref reg q)) (c q)\<rparr>"
  using assms unfolding xref_ext_def by simp_all

lemma xref_ext_frame: "xref_ext reg ov c reg' \<Longrightarrow> frame reg reg'"
  unfolding frame_def xref_ext_def by (metis Symbol.select_convs Symbol.surjective Symbol.update_convs)

lemma xref_modify_usedby:
  assumes "h < length (store reg)"
  shows "xref_ext reg (\<lambda>_. None) (\<lambda>q. if q = h then [v] else [])
           (modify reg h (\<lambda>s. s\<lparr>UsedBy := appendUnique (UsedBy s) v\<rparr>))"
  using assms by (simp add: xref_ext_def deref_modify)

lemma xref_modify_overrides:
  assumes "p < length (store reg)"
  shows "xref_ext reg (\<lambda>q. if q = p then Some v else None) (\<lambda>_. [])
           (modify reg p (\<lambda>s. s\<lparr>Overrides := v\<rparr>))"
  using assms by (simp add: xref_ext_def deref_modify)

lemma hook_count_Cons:
  "hook_count hbt (t # ts) =
     stats_add (if hbt t = None then stats_zero
                else \<lparr>Resolved = 1, Unresolved = 0, Inheritance = 0, HookBindings = 1\<rparr>)
               (hook_count hbt ts)"
  by (simp add: hook_count_def stats_add_def stats_zero_def)

lemma bindUses_char:
  assumes "\<forall>t h. hbt t = Some h \<longrightarrow> h < length (store (registry r))"
  shows "xref_ext (registry r) (\<lambda>_. None)
           (\<lambda>q. map (\<lambda>_. ID (deref (registry r) p)) (filter (\<lambda>t. hbt t = Some q) uses))
           (registry (bindUses hbt p uses r)) \<and>
         stats (bindUses hbt p uses r) = stats_add (stats r) (hook_count hbt uses)"
  using assms
proof (induction uses arbitrary: r)
  case Nil
  then show ?case by (simp add: xref_ext_refl hook_count_def stats_zero_def [symmetric])
next
  case (Cons t ts)
  let ?reg = "registry r"
  show ?case
  proof (cases "hbt t")
    case None
    have "xref_ext ?reg (\<lambda>_. None)
           (\<lambda>q. map (\<lambda>_. ID (deref ?reg p)) (filter (\<lambda>t. hbt t = Some q) ts))
           (registry (bindUses hbt p ts r)) \<and>
         stats (bindUses hbt p ts r) = stats_add (stats r) (hook_count hbt ts)"
      by (rule Cons.IH) (use Cons.prems in auto)
    with None show ?thesis by (simp add: hook_count_Cons stats_add_def stats_zero_def)
  next
    case (Some h)
    let ?v = "ID (deref ?reg p)"
    let ?r1 = "r\<lparr>registry := modify ?reg h (\<lambda>s. s\<lparr>UsedBy := appendUnique (UsedBy s) ?v\<rparr>),
                  stats := (stats r)\<lparr>HookBindings := HookBindings (stats r) + 1,
                                     Resolved := Resolved (stats r) + 1\<rparr>\<rparr>"
    have h: "h < length (store ?reg)" using Cons.prems Some by blast
    have x1: "xref_ext ?reg (\<lambda>_. None) (\<lambda>q. if q = h then [?v] else []) (registry ?r1)"
      using xref_modify_usedby [OF h] by simp
    have id1: "ID (deref (registry ?r1) p) = ?v"
      using frame_fields(5) [OF xref_ext_frame [OF x1]] .
    have "xref_ext (registry ?r1) (\<lambda>_. None)
           (\<lambda>q. map (\<lambda>_. ID (deref (registry ?r1) p)) (filter (\<lambda>t. hbt t = Some q) ts))
           (registry (bindUses hbt p ts ?r1)) \<and>
         stats (bindUses hbt p ts ?r1) = stats_add (stats ?r1) (hook_count hbt ts)"
      by (rule Cons.IH) (use Cons.prems in auto)
    then have x2: "xref_ext (registry ?r1) (\<lambda>_. None)
           (\<lambda>q. map (\<lambda>_. ?v) (filter (\<lambda>t. hbt t = Some q) ts))
           (registry (bindUses hbt p ts ?r1))"
      and s2: "stats (bindUses hbt p ts ?r1) = stats_add (stats ?r1) (hook_count hbt ts)"
      unfolding id1 by blast+
    have "xref_ext ?reg (\<lambda>_. None)
           (\<lambda>q. map (\<lambda>_. ?v) (filter (\<lambda>t. hbt t = Some q) (t # ts)))
           (registry (bindUses hbt p ts ?r1))"
      by (rule xref_ext_eq [OF xref_ext_trans [OF x1 x2]]) (auto simp: fun_eq_iff Some)
    moreover have "stats (bindUses hbt p ts ?r1) = stats_add (stats r) (hook_count hbt (t # ts))"
      unfolding s2 by (simp add: hook_count_Cons Some stats_add_def)
    ultimately show ?thesis using Some by simp
  qed
qed

lemma hookStep_char:
  assumes "\<forall>t h. hbt t = Some h \<longrightarrow> h < length (store (registry r))"
  shows "xref_ext (registry r) (\<lambda>_. None) (hook_contrib hbt (deref (registry r) p))
           (registry (hookStep hbt p r)) \<and>
         stats (hookStep hbt p r) = stats_add (stats r) (hook_stats hbt (deref (registry r) p))"
proof (cases "is_callable (deref (registry r) p)")
  case True
  then have "hookStep hbt p r = bindUses hbt p (Uses (deref (registry r) p)) r"
    by (auto simp: hookStep_def is_callable_def)
  moreover have "hook_contrib hbt (deref (registry r) p) =
      (\<lambda>q. map (\<lambda>_. ID (deref (registry r) p)) (filter (\<lambda>t. hbt t = Some q) (Uses (deref (registry r) p))))"
    using True by (simp add: hook_contrib_def fun_eq_iff)
  ultimately show ?thesis
    using bindUses_char [OF assms, of p "Uses (deref (registry r) p)"] True
    by (simp add: hook_stats_def)
next
  case False
  then have "hookStep hbt p r = r"
    by (auto simp: hookStep_def is_callable_def)
  moreover have "hook_contrib hbt (deref (registry r) p) = (\<lambda>_. [])"
    using False by (simp add: hook_contrib_def fun_eq_iff)
  ultimately show ?thesis using False by (simp add: xref_ext_refl hook_stats_def)
qed

lemma hookFold_char:
  assumes "\<forall>t h. hbt t = Some h \<longrightarrow> h < length (store (registry r))"
  shows "xref_ext (registry r) (\<lambda>_. None)
           (\<lambda>q. concat (map (\<lambda>p. hook_contrib hbt (deref (registry r) p) q) ps))
           (registry (fold (hookStep hbt) ps r)) \<and>
         stats (fold (hookStep hbt) ps r) =
           stats_add (stats r) (stats_sum (map (\<lambda>p. hook_stats hbt (deref (registry r) p)) ps))"
  using assms
proof (induction ps arbitrary: r)
  case Nil
  then show ?case by (simp add: xref_ext_refl)
next
  case (Cons p ps)
  let ?reg = "registry r"
  let ?r1 = "hookStep hbt p r"
  from hookStep_char [OF Cons.prems, of p]
  have x1: "xref_ext ?reg (\<lambda>_. None) (hook_contrib hbt (deref ?reg p)) (registry ?r1)"
    and s1: "stats ?r1 = stats_add (stats r) (hook_stats hbt (deref ?reg p))"
    by blast+
  note fr = xref_ext_frame [OF x1]
  have same: "hook_contrib hbt (deref (registry ?r1) q) = hook_contrib hbt (deref ?reg q)"
    "hook_stats hbt (deref (registry ?r1) q) = hook_stats hbt (deref ?reg q)" for q
    by (simp_all add: hook_contrib_def hook_stats_def is_callable_def frame_fields [OF fr]
        fun_eq_iff)
  have v1: "\<forall>t h. hbt t = Some h \<longrightarrow> h < length (store (registry ?r1))"
    using Cons.prems by (simp add: frame_fields(4) [OF fr])
  from Cons.IH [OF v1]
  have x2: "xref_ext (registry ?r1) (\<lambda>_. None)
           (\<lambda>q. concat (map (\<lambda>p. hook_contrib hbt (deref ?reg p) q) ps))
           (registry (fold (hookStep hbt) ps ?r1))"
    and s2: "stats (fold (hookStep hbt) ps ?r1) =
           stats_add (stats ?r1) (stats_sum (map (\<lambda>p. hook_stats hbt (deref ?reg p)) ps))"
    unfolding same by blast+
  have "xref_ext ?reg (\<lambda>_. None)
           (\<lambda>q. concat (map (\<lambda>p. hook_contrib hbt (deref ?reg p) q) (p # ps)))
           (registry (fold (hookStep hbt) ps ?r1))"
    by (rule xref_ext_eq [OF xref_ext_trans [OF x1 x2]]) (auto simp: fun_eq_iff)
  moreover have "stats (fold (hookStep hbt) ps ?r1) =
           stats_add (stats r) (stats_sum (map (\<lambda>p. hook_stats hbt (deref ?reg p)) (p # ps)))"
    unfolding s2 s1 by (simp add: stats_add_assoc)
  ultimately show ?case by simp
qed

lemma hooksByTag_fold:
  "fold (\<lambda>h m. m(HookTag (deref reg h) \<mapsto> h)) hs m0 t = Some h \<Longrightarrow>
     (h \<in> set hs \<and> HookTag (deref reg h) = t) \<or> m0 t = Some h"
proof (induction hs arbitrary: m0)
  case Nil
  then show ?case by simp
next
  case (Cons a hs)
  from Cons.prems have "fold (\<lambda>h m. m(HookTag (deref reg h) \<mapsto> h)) hs
                          (m0(HookTag (deref reg a) \<mapsto> a)) t = Some h"
    unfolding fold_simps .
  from Cons.IH [OF this] show ?case by (auto split: if_splits)
qed

lemma hooksByTag_Some:
  "hooksByTag reg t = Some h \<Longrightarrow> h \<in> set (ByKind reg KindHook) \<and> HookTag (deref reg h) = t"
  unfolding hooksByTag_def by (drule hooksByTag_fold) simp

lemma hooksByTag_dom_fold:
  "dom (fold (\<lambda>h m. m(HookTag (deref reg h) \<mapsto> h)) hs m0) =
     dom m0 \<union> (\<lambda>h. HookTag (deref reg h)) ` set hs"
  by (induction hs arbitrary: m0) auto

lemma hooksByTag_dom:
  "dom (hooksByTag reg) = (\<lambda>h. HookTag (deref reg h)) ` set (ByKind reg KindHook)"
  by (simp add: hooksByTag_def hooksByTag_dom_fold)

lemma hooksByTag_valid:
  "wf_registry reg \<Longrightarrow> \<forall>t h. hooksByTag reg t = Some h \<longrightarrow> h < length (store reg)"
  by (auto dest!: hooksByTag_Some simp: wf_registry_def ByKind_def)

lemma resolveHookBindings_char:
  assumes "wf_registry (registry r)"
  shows "xref_ext (registry r) (\<lambda>_. None)
           (\<lambda>q. concat (map (\<lambda>p. hook_contrib (hooksByTag (registry r)) (deref (registry r) p) q)
                             (AllSymbols (registry r) ord)))
           (registry (resolveHookBindings ord r)) \<and>
         stats (resolveHookBindings ord r) =
           stats_add (stats r)
             (stats_sum (map (\<lambda>p. hook_stats (hooksByTag (registry r)) (deref (registry r) p))
                             (AllSymbols (registry r) ord)))"
  unfolding resolveHookBindings_def
  by (rule hookFold_char [OF hooksByTag_valid [OF assms]])


lemma find_parent_method_valid:
  "wf_registry reg \<Longrightarrow> find_parent_method reg name exts = Some m \<Longrightarrow> m < length (store reg)"
  by (induction exts) (auto simp: Get_def wf_registry_def split: option.splits)

lemma overrideSearch_char:
  assumes "wf_registry (registry r)" "p < length (store (registry r))"
  shows "case find_parent_method (registry r) (Name (deref (registry r) p)) exts of
           None \<Rightarrow> overrideSearch p exts r = r
         | Some m \<Rightarrow>
             xref_ext (registry r) (\<lambda>q. if q = p then Some (ID (deref (registry r) m)) else None)
               (\<lambda>q. if q = m then [ID (deref (registry r) p)] else [])
               (registry (overrideSearch p exts r)) \<and>
             stats (overrideSearch p exts r) =
               stats_add (stats r) \<lparr>Resolved = 1, Unresolved = 0, Inheritance = 0, HookBindings = 0\<rparr>"
proof (induction exts)
  case Nil
  then show ?case by simp
next
  case (Cons e exts)
  let ?reg = "registry r"
  show ?case
  proof (cases "Get ?reg e")
    case None
    then have "overrideSearch p (e # exts) r = overrideSearch p exts r"
      "find_parent_method ?reg (Name (deref ?reg p)) (e # exts) =
       find_parent_method ?reg (Name (deref ?reg p)) exts"
      by simp_all
    then show ?thesis using Cons.IH by (simp only:)
  next
    case (Some extSym)
    show ?thesis
    proof (cases "Get ?reg (e @ ''::'' @ Name (deref ?reg p))")
      case None
      with Some have "overrideSearch p (e # exts) r = overrideSearch p exts r"
        "find_parent_method ?reg (Name (deref ?reg p)) (e # exts) =
         find_parent_method ?reg (Name (deref ?reg p)) exts"
        by simp_all
      then show ?thesis using Cons.IH by (simp only:)
    next
      case m: (Some m)
      let ?reg1 = "modify ?reg p (\<lambda>s. s\<lparr>Overrides := ID (deref ?reg m)\<rparr>)"
      let ?reg2 = "modify ?reg1 m (\<lambda>s. s\<lparr>UsedBy := appendUnique (UsedBy s) (ID (deref ?reg1 p))\<rparr>)"
      have mv: "m < length (store ?reg)"
        using assms(1) m by (simp add: Get_def wf_registry_def)
      have x1: "xref_ext ?reg (\<lambda>q. if q = p then Some (ID (deref ?reg m)) else None) (\<lambda>_. []) ?reg1"
        by (rule xref_modify_overrides [OF assms(2)])
      have id1: "ID (deref ?reg1 p) = ID (deref ?reg p)"
        using frame_fields(5) [OF xref_ext_frame [OF x1]] .
      have "xref_ext ?reg1 (\<lambda>_. None) (\<lambda>q. if q = m then [ID (deref ?reg1 p)] else []) ?reg2"
        by (rule xref_modify_usedby) (use mv in simp)
      then have x2: "xref_ext ?reg1 (\<lambda>_. None) (\<lambda>q. if q = m then [ID (deref ?reg p)] else []) ?reg2"
        unfolding id1 .
      have "xref_ext ?reg (\<lambda>q. if q = p then Some (ID (deref ?reg m)) else None)
               (\<lambda>q. if q = m then [ID (deref ?reg p)] else []) ?reg2"
        by (rule xref_ext_eq [OF xref_ext_trans [OF x1 x2]]) (auto simp: fun_eq_iff)
      with Some m show ?thesis by (simp add: Let_def stats_add_def)
    qed
  qed
qed

lemma overrideStep_char:
  assumes "wf_registry (registry r)" "p < length (store (registry r))"
  shows "xref_ext (registry r) (ovr_write (registry r) p) (ovr_contrib (registry r) p)
           (registry (overrideStep p r)) \<and>
         stats (overrideStep p r) = stats_add (stats r) (ovr_stats (registry r) p)"
proof (cases "override_target (registry r) p")
  case None
  have "overrideStep p r = r"
  proof (cases "Kind (deref (registry r) p) \<noteq> KindMethod \<or> ParentID (deref (registry r) p) = []")
    case True
    then show ?thesis by (auto simp: overrideStep_def)
  next
    case False
    show ?thesis
    proof (cases "Get (registry r) (ParentID (deref (registry r) p))")
      case None
      with False show ?thesis by (auto simp: overrideStep_def)
    next
      case (Some parent)
      with False \<open>override_target (registry r) p = None\<close>
      have "find_parent_method (registry r) (Name (deref (registry r) p))
              (Extends (deref (registry r) parent)) = None"
        by (auto simp: override_target_def)
      with overrideSearch_char [OF assms, of "Extends (deref (registry r) parent)"]
      have "overrideSearch p (Extends (deref (registry r) parent)) r = r" by simp
      with False Some show ?thesis by (auto simp: overrideStep_def)
    qed
  qed
  moreover have "ovr_write (registry r) p = (\<lambda>_. None)" "ovr_contrib (registry r) p = (\<lambda>_. [])"
    using None by (simp_all add: ovr_write_def ovr_contrib_def fun_eq_iff)
  ultimately show ?thesis using None by (simp add: xref_ext_refl ovr_stats_def)
next
  case (Some m)
  then obtain parent where k: "\<not> (Kind (deref (registry r) p) \<noteq> KindMethod \<or> ParentID (deref (registry r) p) = [])"
    and g: "Get (registry r) (ParentID (deref (registry r) p)) = Some parent"
    and f: "find_parent_method (registry r) (Name (deref (registry r) p))
              (Extends (deref (registry r) parent)) = Some m"
    by (auto simp: override_target_def split: if_splits option.splits)
  have st: "overrideStep p r = overrideSearch p (Extends (deref (registry r) parent)) r"
    using k g by (auto simp: overrideStep_def)
  have w: "ovr_write (registry r) p = (\<lambda>q. if q = p then Some (ID (deref (registry r) m)) else None)"
    and c: "ovr_contrib (registry r) p = (\<lambda>q. if q = m then [ID (deref (registry r) p)] else [])"
    using Some by (auto simp: ovr_write_def ovr_contrib_def fun_eq_iff)
  from overrideSearch_char [OF assms, of "Extends (deref (registry r) parent)"] f
  show ?thesis unfolding st w c using Some by (simp add: ovr_stats_def)
qed

lemma wf_frame: "frame reg reg' \<Longrightarrow> wf_registry reg \<Longrightarrow> wf_registry reg'"
  unfolding wf_registry_def deref_def [symmetric]
  by (simp add: frame_fields)

lemma find_parent_method_cong:
  "Get reg' = Get reg \<Longrightarrow> find_parent_method reg' name exts = find_parent_method reg name exts"
  by (induction exts) (simp_all cong: option.case_cong)

lemma override_target_xref:
  assumes "xref_ext reg ov c reg'"
  shows "override_target reg' = override_target reg"
proof -
  note fr = xref_ext_frame [OF assms]
  have e: "Extends (deref reg' q) = Extends (deref reg q)" for q
    by (simp add: xref_ext_fields(5) [OF assms])
  show ?thesis
    unfolding override_target_def fun_eq_iff
    by (simp add: frame_fields [OF fr] frame_Get [OF fr] e
        find_parent_method_cong [OF frame_Get [OF fr]] cong: option.case_cong)
qed

lemma overrideFold_char:
  assumes "wf_registry (registry r)" "\<forall>p\<in>set ps. p < length (store (registry r))"
  shows "xref_ext (registry r)
           (\<lambda>q. if q \<in> set ps
                 then map_option (\<lambda>m. ID (deref (registry r) m)) (override_target (registry r) q)
                 else None)
           (\<lambda>q. map (\<lambda>p. ID (deref (registry r) p))
                     (filter (\<lambda>p. override_target (registry r) p = Some q) ps))
           (registry (fold overrideStep ps r)) \<and>
         stats (fold overrideStep ps r) =
           stats_add (stats r) (stats_sum (map (ovr_stats (registry r)) ps))"
  using assms
proof (induction ps arbitrary: r)
  case Nil
  then show ?case by (simp add: xref_ext_refl)
next
  case (Cons p ps)
  let ?reg = "registry r"
  let ?r1 = "overrideStep p r"
  have pv: "p < length (store ?reg)" using Cons.prems by simp
  from overrideStep_char [OF Cons.prems(1) pv]
  have x1: "xref_ext ?reg (ovr_write ?reg p) (ovr_contrib ?reg p) (registry ?r1)"
    and s1: "stats ?r1 = stats_add (stats r) (ovr_stats ?reg p)"
    by blast+
  note fr = xref_ext_frame [OF x1]
  note tg = override_target_xref [OF x1]
  have w1: "wf_registry (registry ?r1)" using wf_frame [OF fr Cons.prems(1)] .
  have v1: "\<forall>q\<in>set ps. q < length (store (registry ?r1))"
    using Cons.prems by (simp add: frame_fields(4) [OF fr])
  have st: "ovr_stats (registry ?r1) = ovr_stats ?reg"
    by (simp add: ovr_stats_def fun_eq_iff tg)
  from Cons.IH [OF w1 v1]
  have x2: "xref_ext (registry ?r1)
           (\<lambda>q. if q \<in> set ps
                 then map_option (\<lambda>m. ID (deref ?reg m)) (override_target ?reg q)
                 else None)
           (\<lambda>q. map (\<lambda>p. ID (deref ?reg p))
                     (filter (\<lambda>p. override_target ?reg p = Some q) ps))
           (registry (fold overrideStep ps ?r1))"
    and s2: "stats (fold overrideStep ps ?r1) =
           stats_add (stats ?r1) (stats_sum (map (ovr_stats ?reg) ps))"
    unfolding tg st frame_fields(5) [OF fr] by blast+
  have "xref_ext ?reg
           (\<lambda>q. if q \<in> set (p # ps)
                 then map_option (\<lambda>m. ID (deref ?reg m)) (override_target ?reg q)
                 else None)
           (\<lambda>q. map (\<lambda>p. ID (deref ?reg p))
                     (filter (\<lambda>p. override_target ?reg p = Some q) (p # ps)))
           (registry (fold overrideStep ps ?r1))"
    by (rule xref_ext_eq [OF xref_ext_trans [OF x1 x2]])
       (auto simp: fun_eq_iff ovr_write_def ovr_contrib_def split: option.splits)
  moreover have "stats (fold overrideStep ps ?r1) =
           stats_add (stats r) (stats_sum (map (ovr_stats ?reg) (p # ps)))"
    unfolding s2 s1 by (simp add: stats_add_assoc)
  ultimately show ?case by simp
qed

lemma resolveMethodOverrides_char:
  assumes "wf_registry (registry r)"
  shows "xref_ext (registry r)
           (\<lambda>q. if q \<in> set (AllSymbols (registry r) ord)
                 then map_option (\<lambda>m. ID (deref (registry r) m)) (override_target (registry r) q)
                 else None)
           (\<lambda>q. map (\<lambda>p. ID (deref (registry r) p))
                     (filter (\<lambda>p. override_target (registry r) p = Some q)
                             (AllSymbols (registry r) ord)))
           (registry (resolveMethodOverrides ord r)) \<and>
         stats (resolveMethodOverrides ord r) =
           stats_add (stats r) (stats_sum (map (ovr_stats (registry r))
                                               (AllSymbols (registry r) ord)))"
  unfolding resolveMethodOverrides_def
  by (rule overrideFold_char [OF assms wf_AllSymbols_valid [OF assms]])

lemma find_parent_method_first:
  assumes "i < length exts" "Get reg (exts ! i) \<noteq> None"
    "Get reg (exts ! i @ ''::'' @ name) = Some m"
    "\<forall>j<i. Get reg (exts ! j) = None \<or> Get reg (exts ! j @ ''::'' @ name) = None"
  shows "find_parent_method reg name exts = Some m"
  using assms
proof (induction exts arbitrary: i)
  case Nil
  then show ?case by simp
next
  case (Cons e exts)
  show ?case
  proof (cases i)
    case 0
    with Cons.prems(2,3) have "Get reg e \<noteq> None" "Get reg (e @ ''::'' @ name) = Some m"
      by simp_all
    then obtain x where "Get reg e = Some x" "Get reg (e @ ''::'' @ name) = Some m"
      by blast
    then show ?thesis by simp
  next
    case (Suc i')
    then have "0 < i" by simp
    then have "Get reg ((e # exts) ! 0) = None \<or>
        Get reg ((e # exts) ! 0 @ ''::'' @ name) = None"
      by (rule Cons.prems(4) [rule_format])
    then have hd: "Get reg e = None \<or> Get reg (e @ ''::'' @ name) = None"
      by simp
    have "find_parent_method reg name (e # exts) = find_parent_method reg name exts"
    proof (cases "Get reg e")
      case None
      then show ?thesis by simp
    next
      case (Some x)
      with hd have "Get reg (e @ ''::'' @ name) = None" by simp
      with Some show ?thesis by simp
    qed
    moreover have "find_parent_method reg name exts = Some m"
    proof (rule Cons.IH [of i'])
      show "i' < length exts" using Cons.prems(1) Suc by simp
      show "Get reg (exts ! i') \<noteq> None" using Cons.prems(2) Suc by simp
      show "Get reg (exts ! i' @ ''::'' @ name) = Some m" using Cons.prems(3) Suc by simp
      show "\<forall>j<i'. Get reg (exts ! j) = None \<or> Get reg (exts ! j @ ''::'' @ name) = None"
      proof (intro allI impI)
        fix j assume "j < i'"
        then have "Suc j < i" using Suc by simp
        then have "Get reg ((e # exts) ! Suc j) = None \<or>
            Get reg ((e # exts) ! Suc j @ ''::'' @ name) = None"
          by (rule Cons.prems(4) [rule_format])
        then show "Get reg (exts ! j) = None \<or> Get reg (exts ! j @ ''::'' @ name) = None"
          by simp
      qed
    qed
    ultimately show ?thesis by simp
  qed
qed

lemma wf_same_ID:
  assumes "wf_registry reg" "p \<in> ran (symbols reg)" "q \<in> ran (symbols reg)"
    "ID (deref reg p) = ID (deref reg q)"
  shows "p = q"
proof -
  from assms(2,3) obtain k k' where "symbols reg k = Some p" "symbols reg k' = Some q"
    by (auto simp: ran_def)
  with assms(1,4) show ?thesis
    unfolding wf_registry_def deref_def by (metis option.inject)
qed

text \<open>
  C3.  In the override pass, take a method symbol with a non-empty \<open>ParentID\<close>.  If the
  owning class was ingested and entry \<open>i\<close> of its \<open>Extends\<close> is the first that names an
  ingested symbol owning a method \<open>entry::Name\<close>, then the method's \<open>Overrides\<close> is that
  parent method's ID, the method's ID is in the parent method's \<open>UsedBy\<close>, and no other
  symbol's \<open>UsedBy\<close> gains it (the search stopped).  If the owning class was never
  ingested, the method is skipped: its \<open>Overrides\<close> stays and its ID is added nowhere.
\<close>

theorem resolveMethodOverrides_first_match:
  assumes "wf_registry (registry r)" and "enumerates (registry r) ord"
    and "Get (registry r) k = Some p"
    and "Kind (deref (registry r) p) = KindMethod" and "ParentID (deref (registry r) p) \<noteq> []"
  shows "let reg = registry r; reg' = registry (resolveMethodOverrides ord r); s = deref reg p
         in (\<forall>parent i m.
               Get reg (ParentID s) = Some parent \<and> i < length (Extends (deref reg parent)) \<and>
               Get reg (Extends (deref reg parent) ! i) \<noteq> None \<and>
               Get reg (Extends (deref reg parent) ! i @ ''::'' @ Name s) = Some m \<and>
               (\<forall>j<i. Get reg (Extends (deref reg parent) ! j) = None \<or>
                      Get reg (Extends (deref reg parent) ! j @ ''::'' @ Name s) = None)
               \<longrightarrow> Overrides (deref reg' p) = ID (deref reg m) \<and>
                   ID s \<in> set (UsedBy (deref reg' m)) \<and>
                   (\<forall>q. q \<noteq> m \<and> ID s \<in> set (UsedBy (deref reg' q))
                        \<longrightarrow> ID s \<in> set (UsedBy (deref reg q)))) \<and>
            (Get reg (ParentID s) = None
               \<longrightarrow> Overrides (deref reg' p) = Overrides s \<and>
                   (\<forall>q. ID s \<in> set (UsedBy (deref reg' q)) \<longrightarrow> ID s \<in> set (UsedBy (deref reg q))))"
proof -
  let ?reg = "registry r"
  let ?reg' = "registry (resolveMethodOverrides ord r)"
  let ?s = "deref ?reg p"
  let ?ps = "AllSymbols ?reg ord"
  from resolveMethodOverrides_char [OF assms(1), of ord]
  have x: "xref_ext ?reg
           (\<lambda>q. if q \<in> set ?ps
                 then map_option (\<lambda>m. ID (deref ?reg m)) (override_target ?reg q) else None)
           (\<lambda>q. map (\<lambda>p. ID (deref ?reg p)) (filter (\<lambda>p. override_target ?reg p = Some q) ?ps))
           ?reg'"
    by blast
  have ran: "set ?ps = ran (symbols ?reg)" by (rule AllSymbols_set [OF assms(2)])
  have pin: "p \<in> set ?ps" using assms(3) by (auto simp: ran Get_def ran_def)
  have ov: "Overrides (deref ?reg' p) =
      (case override_target ?reg p of None \<Rightarrow> Overrides ?s | Some m \<Rightarrow> ID (deref ?reg m))"
    using pin by (simp add: xref_ext_fields(5) [OF x] split: option.splits)
  have ub: "set (UsedBy (deref ?reg' q)) =
      set (UsedBy (deref ?reg q)) \<union> {ID (deref ?reg p') | p'. p' \<in> set ?ps \<and> override_target ?reg p' = Some q}"
    for q
    by (auto simp: xref_ext_fields(5) [OF x] set_append_all)
  have only: "ID ?s \<in> set (UsedBy (deref ?reg' q)) \<Longrightarrow> override_target ?reg p \<noteq> Some q
              \<Longrightarrow> ID ?s \<in> set (UsedBy (deref ?reg q))" for q
  proof -
    assume a: "ID ?s \<in> set (UsedBy (deref ?reg' q))" and n: "override_target ?reg p \<noteq> Some q"
    show "ID ?s \<in> set (UsedBy (deref ?reg q))"
    proof (rule ccontr)
      assume "ID ?s \<notin> set (UsedBy (deref ?reg q))"
      with a obtain p' where p': "p' \<in> set ?ps" "override_target ?reg p' = Some q"
        "ID (deref ?reg p') = ID ?s"
        unfolding ub by auto
      from wf_same_ID [OF assms(1) p'(1) [unfolded ran] pin [unfolded ran] p'(3)]
      have "p' = p" .
      with p'(2) n show False by simp
    qed
  qed
  have first: "Overrides (deref ?reg' p) = ID (deref ?reg m) \<and>
                   ID ?s \<in> set (UsedBy (deref ?reg' m)) \<and>
                   (\<forall>q. q \<noteq> m \<and> ID ?s \<in> set (UsedBy (deref ?reg' q))
                        \<longrightarrow> ID ?s \<in> set (UsedBy (deref ?reg q)))"
    if h: "Get ?reg (ParentID ?s) = Some parent \<and> i < length (Extends (deref ?reg parent)) \<and>
               Get ?reg (Extends (deref ?reg parent) ! i) \<noteq> None \<and>
               Get ?reg (Extends (deref ?reg parent) ! i @ ''::'' @ Name ?s) = Some m \<and>
               (\<forall>j<i. Get ?reg (Extends (deref ?reg parent) ! j) = None \<or>
                      Get ?reg (Extends (deref ?reg parent) ! j @ ''::'' @ Name ?s) = None)"
    for parent i m
  proof -
    note h1 = h [THEN conjunct1]
      and h2 = h [THEN conjunct2, THEN conjunct1]
      and h3 = h [THEN conjunct2, THEN conjunct2, THEN conjunct1]
      and h4 = h [THEN conjunct2, THEN conjunct2, THEN conjunct2, THEN conjunct1]
      and h5 = h [THEN conjunct2, THEN conjunct2, THEN conjunct2, THEN conjunct2]
    have "find_parent_method ?reg (Name ?s) (Extends (deref ?reg parent)) = Some m"
      by (rule find_parent_method_first [OF h2 h3 h4 h5])
    with h1 assms(4,5) have t: "override_target ?reg p = Some m"
      by (simp add: override_target_def)
    have "ID ?s \<in> {ID (deref ?reg p') | p'. p' \<in> set ?ps \<and> override_target ?reg p' = Some m}"
      using pin t by (intro CollectI exI [of _ p]) simp
    then have "ID ?s \<in> set (UsedBy (deref ?reg' m))"
      unfolding ub by simp
    moreover have "ID ?s \<in> set (UsedBy (deref ?reg q))"
      if "q \<noteq> m \<and> ID ?s \<in> set (UsedBy (deref ?reg' q))" for q
      using only [of q] that t by simp
    ultimately show ?thesis using ov t by simp
  qed
  have skip: "Overrides (deref ?reg' p) = Overrides ?s \<and>
                   (\<forall>q. ID ?s \<in> set (UsedBy (deref ?reg' q)) \<longrightarrow> ID ?s \<in> set (UsedBy (deref ?reg q)))"
    if h: "Get ?reg (ParentID ?s) = None"
  proof -
    from h have t: "override_target ?reg p = None" by (simp add: override_target_def)
    then show ?thesis using ov only by simp
  qed
  show ?thesis
    unfolding Let_def
  proof (intro conjI allI impI)
    fix parent i m
    assume "Get ?reg (ParentID ?s) = Some parent \<and> i < length (Extends (deref ?reg parent)) \<and>
               Get ?reg (Extends (deref ?reg parent) ! i) \<noteq> None \<and>
               Get ?reg (Extends (deref ?reg parent) ! i @ ''::'' @ Name ?s) = Some m \<and>
               (\<forall>j<i. Get ?reg (Extends (deref ?reg parent) ! j) = None \<or>
                      Get ?reg (Extends (deref ?reg parent) ! j @ ''::'' @ Name ?s) = None)"
    from first [OF this]
    show "Overrides (deref ?reg' p) = ID (deref ?reg m)"
      and "ID ?s \<in> set (UsedBy (deref ?reg' m))"
      by simp_all
    fix q assume "q \<noteq> m \<and> ID ?s \<in> set (UsedBy (deref ?reg' q))"
    with first [OF \<open>Get ?reg (ParentID ?s) = Some parent \<and> _\<close>]
    show "ID ?s \<in> set (UsedBy (deref ?reg q))" by simp
  next
    assume n: "Get ?reg (ParentID ?s) = None"
    from skip [OF n] show "Overrides (deref ?reg' p) = Overrides ?s" by simp
    fix q assume "ID ?s \<in> set (UsedBy (deref ?reg' q))"
    with skip [OF n] show "ID ?s \<in> set (UsedBy (deref ?reg q))" by simp
  qed
qed




lemma override_registry_eq:
  "store override_registry = override_symbols"
  "symbols override_registry =
     [''Base'' \<mapsto> 0, ''Base::save'' \<mapsto> 1, ''Mid'' \<mapsto> 2, ''Child'' \<mapsto> 3, ''Child::save'' \<mapsto> 4,
      ''Orphan::save'' \<mapsto> 5, ''Kid'' \<mapsto> 6, ''Kid::save'' \<mapsto> 7]"
  by (simp_all add: override_registry_def override_symbols_def insert_new_def new_symbol_def
      Add_def deref_def NewRegistry_def zero_Symbol_def eval_nat_numeral)

lemma override_wf: "wf_registry override_registry"
  unfolding override_registry_def by (rule wf_ingest [OF wf_NewRegistry])

lemma override_enumerates: "enumerates override_registry override_order"
  by (auto simp: enumerates_def override_registry_eq override_order_def)


lemmas override_eval =
  Get_def override_registry_eq AllSymbols_def map_filter_def deref_def
  override_order_def override_symbols_def zero_Symbol_def New_def modify_def
  resolveMethodOverrides_def overrideStep_def appendUnique_def


theorem resolveMethodOverrides_first_match_witness:
  "wf_registry (registry (New override_registry)) \<and>
   enumerates (registry (New override_registry)) override_order \<and>
   Get (registry (New override_registry)) ''Child::save'' = Some 4 \<and>
   Kind (deref (registry (New override_registry)) 4) = KindMethod \<and>
   ParentID (deref (registry (New override_registry)) 4) = ''Child'' \<and>
   Get (registry (New override_registry)) ''Child'' = Some 3 \<and>
   Extends (deref (registry (New override_registry)) 3) = [''Ghost'', ''Mid'', ''Base''] \<and>
   Get (registry (New override_registry)) ''Ghost'' = None \<and>
   Get (registry (New override_registry)) ''Mid::save'' = None \<and>
   Get (registry (New override_registry)) ''Base::save'' = Some 1 \<and>
   Overrides (deref (registry (resolveMethodOverrides override_order
                                 (New override_registry))) 4) = ''Base::save'' \<and>
   ''Child::save'' \<in> set (UsedBy (deref (registry (resolveMethodOverrides override_order
                                                      (New override_registry))) 1)) \<and>
   Get (registry (New override_registry)) ''Orphan::save'' = Some 5 \<and>
   Get (registry (New override_registry)) ''Orphan'' = None \<and>
   Overrides (deref (registry (resolveMethodOverrides override_order
                                 (New override_registry))) 5) = []"
proof -
  have reg: "registry (New override_registry) = override_registry" by (simp add: New_def)
  have w: "wf_registry (registry (New override_registry))"
    and e: "enumerates (registry (New override_registry)) override_order"
    unfolding reg by (rule override_wf, rule override_enumerates)
  have g: "Get (registry (New override_registry)) ''Child::save'' = Some 4"
    and k: "Kind (deref (registry (New override_registry)) 4) = KindMethod"
    and pa: "ParentID (deref (registry (New override_registry)) 4) = ''Child''"
    and gp: "Get (registry (New override_registry)) ''Child'' = Some 3"
    and ex: "Extends (deref (registry (New override_registry)) 3) = [''Ghost'', ''Mid'', ''Base'']"
    and g0: "Get (registry (New override_registry)) ''Ghost'' = None"
    and g1: "Get (registry (New override_registry)) ''Mid::save'' = None"
    and g2: "Get (registry (New override_registry)) ''Base::save'' = Some 1"
    and g3: "Get (registry (New override_registry)) ''Base'' = Some 0"
    and n: "Name (deref (registry (New override_registry)) 4) = ''save''"
    and i: "ID (deref (registry (New override_registry)) 4) = ''Child::save''"
           "ID (deref (registry (New override_registry)) 1) = ''Base::save''"
    and og: "Get (registry (New override_registry)) ''Orphan::save'' = Some 5"
    and ok: "Kind (deref (registry (New override_registry)) 5) = KindMethod"
    and op: "ParentID (deref (registry (New override_registry)) 5) = ''Orphan''"
    and on: "Get (registry (New override_registry)) ''Orphan'' = None"
    and oo: "Overrides (deref (registry (New override_registry)) 5) = []"
    unfolding reg by (simp_all add: override_eval)
  have pne: "ParentID (deref (registry (New override_registry)) 4) \<noteq> []"
    "ParentID (deref (registry (New override_registry)) 5) \<noteq> []"
    by (simp_all add: pa op)
  note th = resolveMethodOverrides_first_match [OF w e g k pne(1), unfolded Let_def,
      THEN conjunct1, rule_format, of 3 2 1]
  have prem: "Get (registry (New override_registry))
        (ParentID (deref (registry (New override_registry)) 4)) = Some 3 \<and>
      2 < length (Extends (deref (registry (New override_registry)) 3)) \<and>
      Get (registry (New override_registry))
        (Extends (deref (registry (New override_registry)) 3) ! 2) \<noteq> None \<and>
      Get (registry (New override_registry))
        (Extends (deref (registry (New override_registry)) 3) ! 2 @ ''::'' @
           Name (deref (registry (New override_registry)) 4)) = Some 1 \<and>
      (\<forall>j<2. Get (registry (New override_registry))
                (Extends (deref (registry (New override_registry)) 3) ! j) = None \<or>
             Get (registry (New override_registry))
                (Extends (deref (registry (New override_registry)) 3) ! j @ ''::'' @
                   Name (deref (registry (New override_registry)) 4)) = None)"
    unfolding pa ex n
    by (simp add: gp g0 g1 g2 g3 less_2_cases_iff)
  from th [OF prem]
  have r1: "Overrides (deref (registry (resolveMethodOverrides override_order
                                 (New override_registry))) 4) = ''Base::save''"
    and r2: "''Child::save'' \<in> set (UsedBy (deref (registry (resolveMethodOverrides
                 override_order (New override_registry))) 1))"
    unfolding i by simp_all
  note sk = resolveMethodOverrides_first_match [OF w e og ok pne(2), unfolded Let_def,
      THEN conjunct2, rule_format]
  have "Get (registry (New override_registry))
          (ParentID (deref (registry (New override_registry)) 5)) = None"
    unfolding op by (rule on)
  from sk [OF this, THEN conjunct1]
  have r3: "Overrides (deref (registry (resolveMethodOverrides override_order
                                 (New override_registry))) 5) = []"
    unfolding oo .
  show ?thesis by (intro conjI) (fact w e g k pa gp ex g0 g1 g2 r1 r2 og on r3)+
qed

lemma symbol_monotone_refl: "symbol_monotone a a"
  by (simp add: symbol_monotone_def)

lemma symbol_monotone_trans:
  assumes "symbol_monotone a b" "symbol_monotone b c"
  shows "symbol_monotone a c"
proof -
  have "\<exists>ys. UsedBy b = UsedBy a @ ys" "\<exists>zs. UsedBy c = UsedBy b @ zs"
    using assms by (simp_all add: symbol_monotone_def)
  then obtain ys zs where "UsedBy b = UsedBy a @ ys" "UsedBy c = UsedBy b @ zs"
    by (elim exE)
  then have "\<exists>ws. UsedBy c = UsedBy a @ ws" by simp
  then show ?thesis
    using assms unfolding symbol_monotone_def by simp
qed

lemma core_fields:
  "ID (core s) = ID s" "Name (core s) = Name s" "Kind (core s) = Kind s"
  "ParentID (core s) = ParentID s" "Uses (core s) = Uses s" "HookTag (core s) = HookTag s"
  by (simp_all add: core_def)

lemma core_eq_fields:
  assumes "core b = core a"
  shows "ID b = ID a" "Name b = Name a" "Kind b = Kind a"
    "ParentID b = ParentID a" "Uses b = Uses a" "HookTag b = HookTag a"
proof -
  have "ID (core b) = ID (core a)" "Name (core b) = Name (core a)" "Kind (core b) = Kind (core a)"
    "ParentID (core b) = ParentID (core a)" "Uses (core b) = Uses (core a)"
    "HookTag (core b) = HookTag (core a)"
    using assms by simp_all
  then show "ID b = ID a" "Name b = Name a" "Kind b = Kind a"
    "ParentID b = ParentID a" "Uses b = Uses a" "HookTag b = HookTag a"
    unfolding core_fields by simp_all
qed

lemma monotone_refl: "resolution_monotone reg reg"
  by (simp add: resolution_monotone_def symbol_monotone_refl)

lemma monotone_trans: "resolution_monotone a b \<Longrightarrow> resolution_monotone b c \<Longrightarrow> resolution_monotone a c"
  unfolding resolution_monotone_def by (auto intro: symbol_monotone_trans)

lemma frame_Count: "frame reg reg' \<Longrightarrow> Count reg' = Count reg"
  by (simp add: Count_def frame_fields)

lemma frame_enumerates: "frame reg reg' \<Longrightarrow> enumerates reg' ord = enumerates reg ord"
  by (simp add: enumerates_def frame_fields)

lemma monotone_pointwise:
  assumes "frame reg reg'" "\<And>p. symbol_monotone (deref reg p) (deref reg' p)"
  shows "resolution_monotone reg reg'"
  unfolding resolution_monotone_def using assms by (simp add: frame_fields frame_Count)

lemma inh_rewrite_monotone: "symbol_monotone s (inh_rewrite reg fo s)"
  by (simp add: symbol_monotone_def inh_rewrite_def core_def)

lemma see_rewrite_monotone: "symbol_monotone s (see_rewrite reg fo s)"
  by (simp add: symbol_monotone_def see_rewrite_def core_def)

lemma resolveInheritance_monotone:
  assumes "wf_registry (registry r)" "enumerates (registry r) ord"
  shows "resolution_monotone (registry r) (registry (resolveInheritance ord fo r))"
proof (rule monotone_pointwise)
  note ch = resolveInheritance_char [OF assms, of fo]
  show "frame (registry r) (registry (resolveInheritance ord fo r))" using ch by blast
  show "symbol_monotone (deref (registry r) p) (deref (registry (resolveInheritance ord fo r)) p)"
    for p
    using ch by (simp add: inh_rewrite_monotone symbol_monotone_refl)
qed

lemma resolveSeeReferences_monotone:
  assumes "wf_registry (registry r)" "enumerates (registry r) ord"
  shows "resolution_monotone (registry r) (registry (resolveSeeReferences ord fo r))"
proof (rule monotone_pointwise)
  note ch = resolveSeeReferences_char [OF assms, of fo]
  show "frame (registry r) (registry (resolveSeeReferences ord fo r))" using ch by blast
  show "symbol_monotone (deref (registry r) p) (deref (registry (resolveSeeReferences ord fo r)) p)"
    for p
    using ch by (simp add: see_rewrite_monotone symbol_monotone_refl)
qed

lemma xref_ext_monotone:
  assumes "xref_ext reg ov c reg'" "\<And>q v. ov q = Some v \<Longrightarrow> v \<noteq> []"
  shows "resolution_monotone reg reg'"
proof (rule monotone_pointwise)
  show "frame reg reg'" using assms(1) by (rule xref_ext_frame)
  show "symbol_monotone (deref reg p) (deref reg' p)" for p
    using assms(2) [of p] append_all_prefix [of "UsedBy (deref reg p)" "c p"]
    by (auto simp: xref_ext_fields(5) [OF assms(1)] symbol_monotone_def core_def
        split: option.splits)
qed

lemma resolveHookBindings_monotone:
  assumes "wf_registry (registry r)"
  shows "resolution_monotone (registry r) (registry (resolveHookBindings ord r))"
  using resolveHookBindings_char [OF assms, of ord]
  by (auto intro: xref_ext_monotone)

lemma find_parent_method_key:
  "find_parent_method reg name exts = Some m \<Longrightarrow>
     \<exists>e. Get reg (e @ ''::'' @ name) = Some m"
  by (induction exts) (auto split: option.splits)

lemma override_target_ID:
  assumes "wf_registry reg" "override_target reg p = Some m"
  shows "ID (deref reg m) \<noteq> []"
proof -
  from assms(2) obtain parent where
    "find_parent_method reg (Name (deref reg p)) (Extends (deref reg parent)) = Some m"
    by (auto simp: override_target_def split: if_splits option.splits)
  then obtain e where "Get reg (e @ ''::'' @ Name (deref reg p)) = Some m"
    by (drule_tac find_parent_method_key) blast
  with assms(1) have "ID (deref reg m) = e @ ''::'' @ Name (deref reg p)"
    by (simp add: wf_registry_def Get_def deref_def)
  then show ?thesis by simp
qed

lemma resolveMethodOverrides_monotone:
  assumes "wf_registry (registry r)"
  shows "resolution_monotone (registry r) (registry (resolveMethodOverrides ord r))"
proof (rule xref_ext_monotone)
  show "xref_ext (registry r)
           (\<lambda>q. if q \<in> set (AllSymbols (registry r) ord)
                 then map_option (\<lambda>m. ID (deref (registry r) m)) (override_target (registry r) q)
                 else None)
           (\<lambda>q. map (\<lambda>p. ID (deref (registry r) p))
                     (filter (\<lambda>p. override_target (registry r) p = Some q)
                             (AllSymbols (registry r) ord)))
           (registry (resolveMethodOverrides ord r))"
    using resolveMethodOverrides_char [OF assms, of ord] by blast
  show "v \<noteq> []"
    if "(if q \<in> set (AllSymbols (registry r) ord)
         then map_option (\<lambda>m. ID (deref (registry r) m)) (override_target (registry r) q)
         else None) = Some v" for q v
    using that override_target_ID [OF assms] by (auto split: if_splits)
qed

lemma monotone_frame:
  assumes "resolution_monotone reg reg'"
  shows "frame reg reg'"
proof -
  have c: "core (deref reg' p) = core (deref reg p)" for p
    using assms by (simp add: resolution_monotone_def symbol_monotone_def)
  have "symbols reg' = symbols reg" "byKind reg' = byKind reg" "byFile reg' = byFile reg"
    "length (store reg') = length (store reg)"
    using assms by (simp_all add: resolution_monotone_def)
  then show ?thesis
    unfolding frame_def by (simp add: core_eq_fields [OF c])
qed

lemma monotone_wf: "resolution_monotone reg reg' \<Longrightarrow> wf_registry reg \<Longrightarrow> wf_registry reg'"
  by (rule wf_frame [OF monotone_frame])

lemma monotone_enumerates: "resolution_monotone reg reg' \<Longrightarrow> enumerates reg ord \<Longrightarrow> enumerates reg' ord"
  by (simp add: frame_enumerates [OF monotone_frame])

lemma resolveInheritance_keeps:
  assumes "wf_registry (registry r)" "enumerates (registry r) ord"
  shows "SeeAlso (Doc (deref (registry (resolveInheritance ord fo r)) p)) =
           SeeAlso (Doc (deref (registry r) p))"
    "UsedBy (deref (registry (resolveInheritance ord fo r)) p) = UsedBy (deref (registry r) p)"
    "Overrides (deref (registry (resolveInheritance ord fo r)) p) = Overrides (deref (registry r) p)"
  using resolveInheritance_char [OF assms, of fo] by (simp_all add: inh_rewrite_def)

lemma resolveSeeReferences_keeps:
  assumes "wf_registry (registry r)" "enumerates (registry r) ord"
  shows "Extends (deref (registry (resolveSeeReferences ord fo r)) p) = Extends (deref (registry r) p)"
    "Implements (deref (registry (resolveSeeReferences ord fo r)) p) =
       Implements (deref (registry r) p)"
    "UsedBy (deref (registry (resolveSeeReferences ord fo r)) p) = UsedBy (deref (registry r) p)"
    "Overrides (deref (registry (resolveSeeReferences ord fo r)) p) = Overrides (deref (registry r) p)"
  using resolveSeeReferences_char [OF assms, of fo] by (simp_all add: see_rewrite_def)

lemma xref_ext_keeps:
  assumes "xref_ext reg ov c reg'"
  shows "Extends (deref reg' p) = Extends (deref reg p)"
    "Implements (deref reg' p) = Implements (deref reg p)"
    "Doc (deref reg' p) = Doc (deref reg p)"
  by (simp_all add: xref_ext_fields(5) [OF assms])

lemma resolveHookBindings_keeps:
  assumes "wf_registry (registry r)"
  shows "Extends (deref (registry (resolveHookBindings ord r)) p) = Extends (deref (registry r) p)"
    "Implements (deref (registry (resolveHookBindings ord r)) p) = Implements (deref (registry r) p)"
    "Doc (deref (registry (resolveHookBindings ord r)) p) = Doc (deref (registry r) p)"
    "Overrides (deref (registry (resolveHookBindings ord r)) p) = Overrides (deref (registry r) p)"
proof -
  from resolveHookBindings_char [OF assms, of ord]
  obtain c where x: "xref_ext (registry r) (\<lambda>_. None) c (registry (resolveHookBindings ord r))"
    by blast
  show "Extends (deref (registry (resolveHookBindings ord r)) p) = Extends (deref (registry r) p)"
    "Implements (deref (registry (resolveHookBindings ord r)) p) = Implements (deref (registry r) p)"
    "Doc (deref (registry (resolveHookBindings ord r)) p) = Doc (deref (registry r) p)"
    "Overrides (deref (registry (resolveHookBindings ord r)) p) = Overrides (deref (registry r) p)"
    by (simp_all add: xref_ext_fields(5) [OF x])
qed

lemma resolveMethodOverrides_keeps:
  assumes "wf_registry (registry r)"
  shows "Extends (deref (registry (resolveMethodOverrides ord r)) p) = Extends (deref (registry r) p)"
    "Implements (deref (registry (resolveMethodOverrides ord r)) p) =
       Implements (deref (registry r) p)"
    "Doc (deref (registry (resolveMethodOverrides ord r)) p) = Doc (deref (registry r) p)"
proof -
  from resolveMethodOverrides_char [OF assms, of ord]
  obtain ov c where x: "xref_ext (registry r) ov c (registry (resolveMethodOverrides ord r))"
    by blast
  show "Extends (deref (registry (resolveMethodOverrides ord r)) p) = Extends (deref (registry r) p)"
    "Implements (deref (registry (resolveMethodOverrides ord r)) p) =
       Implements (deref (registry r) p)"
    "Doc (deref (registry (resolveMethodOverrides ord r)) p) = Doc (deref (registry r) p)"
    by (simp_all add: xref_ext_keeps [OF x])
qed

text \<open>
  C7.  Resolution is monotonic.  \<open>resolution_monotone reg reg'\<close> says that the three indexes, the
  symbol count and the heap size are those of \<open>reg\<close>, and that every symbol of \<open>reg'\<close> has
  the ID it had and differs from the symbol of \<open>reg\<close> at most in \<open>Extends\<close>, \<open>Implements\<close>,
  the see-also list, \<open>UsedBy\<close> and \<open>Overrides\<close>, where the first three keep their length
  (entries are rewritten, not removed), \<open>UsedBy\<close> only grows at its end and a set
  \<open>Overrides\<close> stays set.  Each of the four passes is resolution_monotone, hence \<open>ResolveAll\<close>;
  what pass 1 wrote to \<open>Extends\<close> and \<open>Implements\<close> and what pass 3 wrote to the see-also
  list is still there at the end.
\<close>

theorem ResolveAll_monotonic:
  assumes "wf_registry (registry r)" and "schedule_ok (registry r) sch"
  shows "let r1 = resolveInheritance (enumInheritance sch) (enumFind sch) r;
             r2 = resolveHookBindings (enumHooks sch) r1;
             r3 = resolveSeeReferences (enumSee sch) (enumFind sch) r2;
             r4 = resolveMethodOverrides (enumOverrides sch) r3
         in ResolveAll sch r = r4 \<and>
            resolution_monotone (registry r) (registry r1) \<and> resolution_monotone (registry r1) (registry r2) \<and>
            resolution_monotone (registry r2) (registry r3) \<and> resolution_monotone (registry r3) (registry r4) \<and>
            resolution_monotone (registry r) (registry (ResolveAll sch r)) \<and>
            (\<forall>p. Extends (deref (registry r4) p) = Extends (deref (registry r1) p) \<and>
                 Implements (deref (registry r4) p) = Implements (deref (registry r1) p) \<and>
                 SeeAlso (Doc (deref (registry r4) p)) = SeeAlso (Doc (deref (registry r3) p)))"
proof -
  let ?r1 = "resolveInheritance (enumInheritance sch) (enumFind sch) r"
  let ?r2 = "resolveHookBindings (enumHooks sch) ?r1"
  let ?r3 = "resolveSeeReferences (enumSee sch) (enumFind sch) ?r2"
  let ?r4 = "resolveMethodOverrides (enumOverrides sch) ?r3"
  from assms(2) have e1: "enumerates (registry r) (enumInheritance sch)"
    and e3: "enumerates (registry r) (enumSee sch)"
    by (simp_all add: schedule_ok_def)
  have m1: "resolution_monotone (registry r) (registry ?r1)"
    by (rule resolveInheritance_monotone [OF assms(1) e1])
  have w1: "wf_registry (registry ?r1)" by (rule monotone_wf [OF m1 assms(1)])
  have m2: "resolution_monotone (registry ?r1) (registry ?r2)"
    by (rule resolveHookBindings_monotone [OF w1])
  have w2: "wf_registry (registry ?r2)" by (rule monotone_wf [OF m2 w1])
  have e3': "enumerates (registry ?r2) (enumSee sch)"
    by (rule monotone_enumerates [OF m2 monotone_enumerates [OF m1 e3]])
  have m3: "resolution_monotone (registry ?r2) (registry ?r3)"
    by (rule resolveSeeReferences_monotone [OF w2 e3'])
  have w3: "wf_registry (registry ?r3)" by (rule monotone_wf [OF m3 w2])
  have m4: "resolution_monotone (registry ?r3) (registry ?r4)"
    by (rule resolveMethodOverrides_monotone [OF w3])
  have all: "ResolveAll sch r = ?r4" by (simp add: ResolveAll_def)
  have m: "resolution_monotone (registry r) (registry (ResolveAll sch r))"
    unfolding all by (rule monotone_trans [OF monotone_trans [OF monotone_trans [OF m1 m2] m3] m4])
  have k: "Extends (deref (registry ?r4) p) = Extends (deref (registry ?r1) p) \<and>
           Implements (deref (registry ?r4) p) = Implements (deref (registry ?r1) p) \<and>
           SeeAlso (Doc (deref (registry ?r4) p)) = SeeAlso (Doc (deref (registry ?r3) p))" for p
    by (simp add: resolveMethodOverrides_keeps [OF w3] resolveSeeReferences_keeps [OF w2 e3']
        resolveHookBindings_keeps [OF w1])
  show ?thesis unfolding Let_def using all m1 m2 m3 m4 m k by simp
qed

lemma override_schedule_ok:
  "schedule_ok override_registry override_schedule"
  by (simp add: schedule_ok_def override_schedule_def override_enumerates)

theorem ResolveAll_monotonic_witness:
  "wf_registry (registry (New override_registry)) \<and>
   schedule_ok (registry (New override_registry)) override_schedule \<and>
   Count (registry (New override_registry)) = 8 \<and>
   Count (registry (ResolveAll override_schedule (New override_registry))) = 8 \<and>
   length (store (registry (ResolveAll override_schedule (New override_registry)))) = 8 \<and>
   ID (deref (registry (ResolveAll override_schedule (New override_registry))) 4) =
     ''Child::save'' \<and>
   length (Extends (deref (registry (ResolveAll override_schedule (New override_registry))) 3)) = 3"
proof -
  have reg: "registry (New override_registry) = override_registry" by (simp add: New_def)
  have w: "wf_registry (registry (New override_registry))"
    and s: "schedule_ok (registry (New override_registry)) override_schedule"
    unfolding reg by (rule override_wf, rule override_schedule_ok)
  have c: "Count (registry (New override_registry)) = 8"
    unfolding reg by (simp add: Count_def override_registry_eq)
  have l: "length (store override_registry) = 8" "ID (deref override_registry 4) = ''Child::save''"
    "length (Extends (deref override_registry 3)) = 3"
    by (simp_all add: override_eval)
  note th = ResolveAll_monotonic [OF w s, unfolded Let_def]
  have "resolution_monotone (registry (New override_registry))
             (registry (ResolveAll override_schedule (New override_registry)))"
    by (rule th [THEN conjunct2, THEN conjunct2, THEN conjunct2, THEN conjunct2,
                 THEN conjunct2, THEN conjunct1])
  then have c': "Count (registry (ResolveAll override_schedule (New override_registry))) = 8"
    and l': "length (store (registry (ResolveAll override_schedule (New override_registry)))) = 8"
    and i': "ID (deref (registry (ResolveAll override_schedule (New override_registry))) 4) =
               ''Child::save''"
    and x': "length (Extends (deref (registry (ResolveAll override_schedule
                                                 (New override_registry))) 3)) = 3"
    using c l unfolding reg resolution_monotone_def symbol_monotone_def by simp_all
  show ?thesis by (intro conjI) (fact w s c c' l' i' x')+
qed

end
